theory Spec2Isabelle
  imports Complex_Main "HOL-Library.Sublist" "HOL-Library.Multiset"
begin

section \<open>Data model (src/types/directory.ts)\<close>

text \<open>
  The directory service of the repository (src/services/directoryService.ts) is embedded as
  pure functions over a snapshot of the host: the file system calls it makes
  (\<open>fs.access\<close>, \<open>fs.stat\<close>, \<open>fs.readdir\<close>), the Node.js library functions it
  uses (\<open>path.normalize\<close>, \<open>path.resolve\<close>, \<open>path.join\<close>, \<open>path.extname\<close>,
  \<open>String.prototype.toLowerCase\<close>, \<open>String.prototype.localeCompare\<close>, the date
  conversions) and the clock are fields of the record \<open>host\<close>. A rejected promise or a
  thrown error is a value \<open>Inl e\<close>; a file system call that fails is \<open>None\<close>.
  JavaScript numbers are modelled as integers (the controller admits only integers for
  page and limit); sizes and counts are natural numbers, so the rounding of sums beyond
  2^53 is outside the model. Strings are HOL strings. The per-entry calls that the source
  starts concurrently and collects with \<open>Promise.all\<close> read the same snapshot, so their
  interleaving does not show in the result; logging is left out.
\<close>

datatype entry_type = File | Directory

record permissions =
  readable :: bool
  writable :: bool
  executable :: bool
  owner :: string
  group :: string
  mode :: string

record FileInfo =
  fi_name :: string
  fi_path :: string
  fi_size :: nat
  fi_extension :: string
  fi_type :: entry_type
  fi_createdDate :: string
  fi_modifiedDate :: string
  fi_permissions :: permissions
  fi_isHidden :: bool

text \<open>The value of \<open>Math.ceil(total / limit)\<close>: an integer, or \<open>Infinity\<close> or \<open>NaN\<close>
  when the limit is 0.\<close>

datatype js_number = Finite int | Infinity | NaN

record pagination =
  pg_page :: int
  pg_limit :: int
  pg_total :: nat
  pg_totalPages :: js_number
  pg_hasNext :: bool
  pg_hasPrevious :: bool

record listing_metadata =
  totalFiles :: nat
  totalDirectories :: nat
  totalSize :: nat
  scannedAt :: string

record DirectoryListingResponse =
  lr_path :: string
  lr_items :: "FileInfo list"
  lr_pagination :: pagination
  lr_metadata :: listing_metadata

record permission_triple =
  pt_readable :: bool
  pt_writable :: bool
  pt_executable :: bool

record DirectoryMetadata =
  dm_path :: string
  dm_exists :: bool
  dm_isDirectory :: bool
  dm_permissions :: permission_triple
  dm_totalItems :: nat
  dm_totalSize :: nat
  dm_lastAccessed :: string
  dm_lastModified :: string
  dm_created :: string

datatype sort_key = ByName | BySize | ByModified | ByType

datatype sort_order = Asc | Desc

section \<open>The host: file system, path library, clock\<close>

datatype access_mode = R_OK | W_OK | X_OK

text \<open>\<open>fs.Stats\<close>: the fields and predicates the service reads. Times are milliseconds
  since the epoch.\<close>

record stats =
  st_isDirectory :: bool
  st_isFile :: bool
  st_size :: nat
  st_mode :: nat
  st_uid :: nat
  st_gid :: nat
  st_atime :: int
  st_mtime :: int
  st_birthtime :: int

record host =
  normalize :: "string \<Rightarrow> string"
  resolve :: "string \<Rightarrow> string"
  join :: "string \<Rightarrow> string \<Rightarrow> string"
  extname :: "string \<Rightarrow> string"
  toLowerCase :: "string \<Rightarrow> string"
  localeCompare :: "string \<Rightarrow> string \<Rightarrow> int"
  toISOString :: "int \<Rightarrow> string"
  getTime :: "string \<Rightarrow> int"
  access :: "string \<Rightarrow> access_mode \<Rightarrow> bool"
  stat :: "string \<Rightarrow> stats option"
  readdir :: "string \<Rightarrow> string list option"
  win32 :: bool
  userInfo :: "string option"
  now :: string

section \<open>Errors (createError in the error handler middleware)\<close>

text \<open>
  \<open>createError(message, statusCode)\<close> builds an error that carries a status code. The
  four errors of \<open>validatePath\<close> and the one of \<open>listDirectory\<close> are named after the
  spec's taxonomy; \<open>FsError\<close> is an error thrown by \<open>fs.stat\<close> or \<open>fs.readdir\<close>
  themselves, which has no \<open>statusCode\<close> property.
\<close>

datatype error = InvalidInput | PathTraversal | AccessDenied | NotFound | NotADirectory | FsError

fun message :: "error \<Rightarrow> string" where
  "message InvalidInput = ''Invalid path length''"
| "message PathTraversal = ''Path traversal not allowed''"
| "message AccessDenied = ''Access to this path is restricted''"
| "message NotFound = ''Path does not exist or is not readable''"
| "message NotADirectory = ''Path is not a directory''"
| "message FsError = ''''"

fun statusCode :: "error \<Rightarrow> nat option" where
  "statusCode InvalidInput = Some 400"
| "statusCode PathTraversal = Some 403"
| "statusCode AccessDenied = Some 403"
| "statusCode NotFound = Some 404"
| "statusCode NotADirectory = Some 400"
| "statusCode FsError = None"

section \<open>String helpers\<close>

definition js_includes :: "string \<Rightarrow> string \<Rightarrow> bool" where
  "js_includes s t = sublist t s"

definition startsWith :: "string \<Rightarrow> string \<Rightarrow> bool" where
  "startsWith s t = prefix t s"

definition backslash :: char where
  "backslash = CHR 0x5C"

section \<open>Path Guard: validatePath\<close>

definition MAX_PATH_LENGTH :: nat where
  "MAX_PATH_LENGTH = 4096"

definition RESTRICTED_PATHS :: "string list" where
  "RESTRICTED_PATHS =
    [''/etc/shadow'',
     ''/etc/passwd'',
     ''C:'' @ [backslash] @ ''Windows'' @ [backslash] @ ''System32'' @ [backslash] @ ''config'',
     ''C:'' @ [backslash] @ ''Windows'' @ [backslash] @ ''System32'' @ [backslash] @ ''drivers''
        @ [backslash] @ ''etc'']"

definition isRestricted :: "host \<Rightarrow> string \<Rightarrow> bool" where
  "isRestricted h normalizedPath =
    list_ex (\<lambda>restrictedPath.
        js_includes (toLowerCase h normalizedPath) (toLowerCase h restrictedPath))
      RESTRICTED_PATHS"

definition validatePath :: "host \<Rightarrow> string \<Rightarrow> error + unit" where
  "validatePath h dirPath =
    (if dirPath = [] \<or> length dirPath > MAX_PATH_LENGTH then Inl InvalidInput
     else
       let normalizedPath = normalize h dirPath in
       if js_includes normalizedPath ''..'' then Inl PathTraversal
       else if isRestricted h normalizedPath then Inl AccessDenied
       else if \<not> access h normalizedPath R_OK then Inl NotFound
       else Inr ())"

section \<open>Number formatting: Number.prototype.toString(radix)\<close>

text \<open>The service formats the mode in radix 8 and the user and group ids in radix 10.\<close>

definition digit_char :: "nat \<Rightarrow> char" where
  "digit_char d = ''0123456789abcdefghijklmnopqrstuvwxyz'' ! d"

function toStringRadix :: "nat \<Rightarrow> nat \<Rightarrow> string" where
  "toStringRadix b n =
    (if n < b \<or> b < 2 then [digit_char n]
     else toStringRadix b (n div b) @ [digit_char (n mod b)])"
  by pat_completeness auto
termination
  by (relation "measure snd") auto

section \<open>Per-entry metadata: getFilePermissions, createFileInfo\<close>

text \<open>
  Each of the three \<open>access\<close> probes sits in its own \<open>try { ... } catch {}\<close>: a probe
  that fails leaves the flag at its initial \<open>false\<close>. \<open>userInfo h = None\<close> is
  \<open>os.userInfo()\<close> throwing; \<open>fs.Stats\<close> always carries \<open>uid\<close> and \<open>gid\<close>, so the
  test against \<open>undefined\<close> is true.
\<close>

definition getFilePermissions :: "host \<Rightarrow> string \<Rightarrow> stats \<Rightarrow> permissions" where
  "getFilePermissions h filePath stats =
    (let perms = \<lparr>readable = access h filePath R_OK,
                  writable = access h filePath W_OK,
                  executable = access h filePath X_OK,
                  owner = ''unknown'',
                  group = ''unknown'',
                  mode = toStringRadix 8 (st_mode stats)\<rparr>
     in if \<not> win32 h then
          (case userInfo h of
             Some username \<Rightarrow>
               perms\<lparr>owner := (if username \<noteq> [] then username
                                else toStringRadix 10 (st_uid stats)),
                     group := toStringRadix 10 (st_gid stats)\<rparr>
           | None \<Rightarrow>
               perms\<lparr>owner := toStringRadix 10 (st_uid stats),
                     group := toStringRadix 10 (st_gid stats)\<rparr>)
        else perms)"

text \<open>\<open>createFileInfo\<close> rejects exactly when its \<open>stat\<close> call does: \<open>None\<close>.\<close>

definition createFileInfo :: "host \<Rightarrow> string \<Rightarrow> string \<Rightarrow> FileInfo option" where
  "createFileInfo h filePath fileName =
    (case stat h filePath of
       None \<Rightarrow> None
     | Some stats \<Rightarrow>
         let perms = getFilePermissions h filePath stats;
             isDirectory = st_isDirectory stats;
             ext = (if isDirectory then [] else toLowerCase h (extname h fileName))
         in Some \<lparr>fi_name = fileName,
                  fi_path = filePath,
                  fi_size = (if isDirectory then 0 else st_size stats),
                  fi_extension = ext,
                  fi_type = (if isDirectory then Directory else File),
                  fi_createdDate = toISOString h (st_birthtime stats),
                  fi_modifiedDate = toISOString h (st_mtime stats),
                  fi_permissions = perms,
                  fi_isHidden = (startsWith fileName ''.''
                                 \<or> (win32 h \<and> startsWith fileName ''$''))\<rparr>)"

section \<open>Listing Engine: listDirectory\<close>

text \<open>The callback of \<open>fileNames.map\<close>: \<open>None\<close> is its \<open>null\<close>, returned for a hidden
  entry that was not asked for and from the \<open>catch\<close> around \<open>createFileInfo\<close>.\<close>

definition listEntry :: "host \<Rightarrow> string \<Rightarrow> bool \<Rightarrow> string \<Rightarrow> FileInfo option" where
  "listEntry h normalizedPath includeHidden fileName =
    (case createFileInfo h (join h normalizedPath fileName) fileName of
       None \<Rightarrow> None
     | Some fileInfo \<Rightarrow>
         if \<not> includeHidden \<and> fi_isHidden fileInfo then None else Some fileInfo)"

text \<open>\<open>Promise.all\<close> keeps the order of \<open>fileNames\<close>; the \<open>null\<close>s are filtered out.\<close>

definition collectItems :: "host \<Rightarrow> string \<Rightarrow> bool \<Rightarrow> string list \<Rightarrow> FileInfo list" where
  "collectItems h normalizedPath includeHidden fileNames =
    List.map_filter (listEntry h normalizedPath includeHidden) fileNames"

fun typeString :: "entry_type \<Rightarrow> string" where
  "typeString File = ''file''"
| "typeString Directory = ''directory''"

definition compareItems :: "host \<Rightarrow> sort_key \<Rightarrow> sort_order \<Rightarrow> FileInfo \<Rightarrow> FileInfo \<Rightarrow> int" where
  "compareItems h sortBy sortOrder a b =
    (let comparison =
       (case sortBy of
          ByName \<Rightarrow> localeCompare h (fi_name a) (fi_name b)
        | BySize \<Rightarrow> int (fi_size a) - int (fi_size b)
        | ByModified \<Rightarrow> getTime h (fi_modifiedDate a) - getTime h (fi_modifiedDate b)
        | ByType \<Rightarrow> localeCompare h (typeString (fi_type a)) (typeString (fi_type b)))
     in if sortOrder = Desc then - comparison else comparison)"

text \<open>\<open>Array.prototype.sort\<close> with a comparator is a stable sort: an element is placed
  before the first one it does not compare greater than, among those that followed it.\<close>

fun insertSorted :: "('a \<Rightarrow> 'a \<Rightarrow> int) \<Rightarrow> 'a \<Rightarrow> 'a list \<Rightarrow> 'a list" where
  "insertSorted cmp x [] = [x]"
| "insertSorted cmp x (y # ys) =
    (if cmp x y \<le> 0 then x # y # ys else y # insertSorted cmp x ys)"

definition js_sort :: "('a \<Rightarrow> 'a \<Rightarrow> int) \<Rightarrow> 'a list \<Rightarrow> 'a list" where
  "js_sort cmp xs = foldr (insertSorted cmp) xs []"

text \<open>\<open>Array.prototype.slice(start, end)\<close> on integers: a negative index counts from the
  end, and both are clamped to the array.\<close>

definition js_slice :: "'a list \<Rightarrow> int \<Rightarrow> int \<Rightarrow> 'a list" where
  "js_slice xs start fin =
    (let len = int (length xs);
         k = (if start < 0 then max (len + start) 0 else min start len);
         final = (if fin < 0 then max (len + fin) 0 else min fin len)
     in take (nat (final - k)) (drop (nat k) xs))"

definition ceilDiv :: "nat \<Rightarrow> int \<Rightarrow> js_number" where
  "ceilDiv n limit =
    (if limit = 0 then (if n = 0 then NaN else Infinity)
     else Finite (- ((- int n) div limit)))"

fun js_less :: "int \<Rightarrow> js_number \<Rightarrow> bool" where
  "js_less n (Finite m) = (n < m)"
| "js_less n Infinity = True"
| "js_less n NaN = False"

text \<open>The sorted, filtered entry set \<open>allItems\<close> of \<open>listDirectory\<close>.\<close>

definition allItems ::
  "host \<Rightarrow> string \<Rightarrow> bool \<Rightarrow> sort_key \<Rightarrow> sort_order \<Rightarrow> string list \<Rightarrow> FileInfo list" where
  "allItems h normalizedPath includeHidden sortBy sortOrder fileNames =
    js_sort (compareItems h sortBy sortOrder)
      (collectItems h normalizedPath includeHidden fileNames)"

definition buildResponse ::
  "host \<Rightarrow> string \<Rightarrow> int \<Rightarrow> int \<Rightarrow> FileInfo list \<Rightarrow> DirectoryListingResponse" where
  "buildResponse h normalizedPath page limit items =
    (let totalCount = length items;
         totalPages = ceilDiv totalCount limit;
         startIndex = (page - 1) * limit;
         endIndex = startIndex + limit;
         paginatedItems = js_slice items startIndex endIndex
     in \<lparr>lr_path = normalizedPath,
         lr_items = paginatedItems,
         lr_pagination =
           \<lparr>pg_page = page,
            pg_limit = limit,
            pg_total = totalCount,
            pg_totalPages = totalPages,
            pg_hasNext = js_less page totalPages,
            pg_hasPrevious = (page > 1)\<rparr>,
         lr_metadata =
           \<lparr>totalFiles = length (filter (\<lambda>item. fi_type item = File) items),
            totalDirectories = length (filter (\<lambda>item. fi_type item = Directory) items),
            totalSize = foldl (\<lambda>sum item. sum + fi_size item) 0
                          (filter (\<lambda>item. fi_type item = File) items),
            scannedAt = now h\<rparr>\<rparr>)"

definition listDirectory ::
  "host \<Rightarrow> string \<Rightarrow> int \<Rightarrow> int \<Rightarrow> bool \<Rightarrow> sort_key \<Rightarrow> sort_order
     \<Rightarrow> error + DirectoryListingResponse" where
  "listDirectory h dirPath page limit includeHidden sortBy sortOrder =
    (case validatePath h dirPath of
       Inl e \<Rightarrow> Inl e
     | Inr _ \<Rightarrow>
         let normalizedPath = resolve h dirPath in
         (case stat h normalizedPath of
            None \<Rightarrow> Inl FsError
          | Some pathStats \<Rightarrow>
              if \<not> st_isDirectory pathStats then Inl NotADirectory
              else
                (case readdir h normalizedPath of
                   None \<Rightarrow> Inl FsError
                 | Some fileNames \<Rightarrow>
                     Inr (buildResponse h normalizedPath page limit
                            (allItems h normalizedPath includeHidden sortBy sortOrder
                               fileNames)))))"

section \<open>Metadata Probe: getDirectoryMetadata\<close>

text \<open>The item count and the summed size of the file children; a child whose \<open>stat\<close>
  fails counts 0 bytes, and a directory that cannot be read leaves both at 0.\<close>

definition countChildren :: "host \<Rightarrow> string \<Rightarrow> stats \<Rightarrow> nat \<times> nat" where
  "countChildren h normalizedPath stats =
    (if st_isDirectory stats then
       (case readdir h normalizedPath of
          Some items \<Rightarrow>
            (length items,
             foldl (\<lambda>sum sz. sum + sz) 0
               (map (\<lambda>item.
                      case stat h (join h normalizedPath item) of
                        Some itemStats \<Rightarrow>
                          if st_isFile itemStats then st_size itemStats else 0
                      | None \<Rightarrow> 0)
                  items))
        | None \<Rightarrow> (0, 0))
     else (0, 0))"

definition notFoundMetadata :: "string \<Rightarrow> DirectoryMetadata" where
  "notFoundMetadata normalizedPath =
    \<lparr>dm_path = normalizedPath,
     dm_exists = False,
     dm_isDirectory = False,
     dm_permissions = \<lparr>pt_readable = False, pt_writable = False, pt_executable = False\<rparr>,
     dm_totalItems = 0,
     dm_totalSize = 0,
     dm_lastAccessed = [],
     dm_lastModified = [],
     dm_created = []\<rparr>"

text \<open>The body of the \<open>try\<close> block.\<close>

definition probe :: "host \<Rightarrow> string \<Rightarrow> string \<Rightarrow> error + DirectoryMetadata" where
  "probe h dirPath normalizedPath =
    (case validatePath h dirPath of
       Inl e \<Rightarrow> Inl e
     | Inr _ \<Rightarrow>
         (case stat h normalizedPath of
            None \<Rightarrow> Inl FsError
          | Some stats \<Rightarrow>
              let perms = getFilePermissions h normalizedPath stats;
                  counts = countChildren h normalizedPath stats
              in Inr \<lparr>dm_path = normalizedPath,
                      dm_exists = True,
                      dm_isDirectory = st_isDirectory stats,
                      dm_permissions =
                        \<lparr>pt_readable = readable perms,
                         pt_writable = writable perms,
                         pt_executable = executable perms\<rparr>,
                      dm_totalItems = fst counts,
                      dm_totalSize = snd counts,
                      dm_lastAccessed = toISOString h (st_atime stats),
                      dm_lastModified = toISOString h (st_mtime stats),
                      dm_created = toISOString h (st_birthtime stats)\<rparr>))"

definition getDirectoryMetadata :: "host \<Rightarrow> string \<Rightarrow> error + DirectoryMetadata" where
  "getDirectoryMetadata h dirPath =
    (let normalizedPath = resolve h dirPath in
     case probe h dirPath normalizedPath of
       Inr m \<Rightarrow> Inr m
     | Inl e \<Rightarrow>
         if statusCode e = Some 404 then Inr (notFoundMetadata normalizedPath)
         else Inl e)"

section \<open>The controller of the listing endpoint\<close>

text \<open>
  A query parameter is absent, present with a value of the expected type (after
  \<open>toInt\<close> or \<open>toBoolean\<close>), or present with a string the validator rejects.
  \<open>validateDirectoryListing\<close> is the validation chain; when it reports an error the
  controller answers 400 and does not call the service. The controller's source is the
  second document of src/services/directoryService.ts; an error the service throws
  reaches the error handler, which answers with the error's status code, or 500.
\<close>

datatype 'a query_param = Absent | Malformed | Given 'a

record list_query =
  q_path :: "string option"
  q_page :: "int query_param"
  q_limit :: "int query_param"
  q_includeHidden :: "bool query_param"
  q_sortBy :: "sort_key query_param"
  q_sortOrder :: "sort_order query_param"

fun optionalInt :: "(int \<Rightarrow> bool) \<Rightarrow> int query_param \<Rightarrow> bool" where
  "optionalInt ok Absent = True"
| "optionalInt ok Malformed = False"
| "optionalInt ok (Given n) = ok n"

fun optionalParam :: "'a query_param \<Rightarrow> bool" where
  "optionalParam Absent = True"
| "optionalParam Malformed = False"
| "optionalParam (Given x) = True"

definition validateDirectoryListing :: "list_query \<Rightarrow> bool" where
  "validateDirectoryListing q =
    ((case q_path q of None \<Rightarrow> False | Some p \<Rightarrow> p \<noteq> [] \<and> length p \<le> 4096)
     \<and> optionalInt (\<lambda>n. 1 \<le> n) (q_page q)
     \<and> optionalInt (\<lambda>n. 1 \<le> n \<and> n \<le> 1000) (q_limit q)
     \<and> optionalParam (q_includeHidden q)
     \<and> optionalParam (q_sortBy q)
     \<and> optionalParam (q_sortOrder q))"

fun withDefault :: "'a \<Rightarrow> 'a query_param \<Rightarrow> 'a" where
  "withDefault d (Given x) = x"
| "withDefault d Absent = d"
| "withDefault d Malformed = d"

datatype http_response = ValidationFailed | ErrorResponse error | Success DirectoryListingResponse

fun status :: "http_response \<Rightarrow> nat" where
  "status ValidationFailed = 400"
| "status (ErrorResponse e) = (case statusCode e of Some c \<Rightarrow> c | None \<Rightarrow> 500)"
| "status (Success r) = 200"

definition listDirectoryController :: "host \<Rightarrow> list_query \<Rightarrow> http_response" where
  "listDirectoryController h q =
    (if \<not> validateDirectoryListing q then ValidationFailed
     else
       (case q_path q of
          None \<Rightarrow> ValidationFailed
        | Some dirPath \<Rightarrow>
            (case listDirectory h dirPath
                    (withDefault 1 (q_page q))
                    (withDefault 100 (q_limit q))
                    (withDefault False (q_includeHidden q))
                    (withDefault ByName (q_sortBy q))
                    (withDefault Asc (q_sortOrder q)) of
               Inl e \<Rightarrow> ErrorResponse e
             | Inr r \<Rightarrow> Success r)))"

section \<open>Notions of the specification\<close>

text \<open>The segments of a path: the pieces between separators (\<open>/\<close>, and the backslash
  of the Windows family). A parent-directory traversal segment is the segment \<open>..\<close>.\<close>

fun splitOn :: "(char \<Rightarrow> bool) \<Rightarrow> string \<Rightarrow> string list" where
  "splitOn sep [] = [[]]"
| "splitOn sep (c # cs) =
    (if sep c then [] # splitOn sep cs
     else (case splitOn sep cs of
             [] \<Rightarrow> [[c]]
           | seg # segs \<Rightarrow> (c # seg) # segs))"

definition is_separator :: "char \<Rightarrow> bool" where
  "is_separator c = (c = CHR ''/'' \<or> c = backslash)"

definition hasTraversalSegment :: "string \<Rightarrow> bool" where
  "hasTraversalSegment p = (''..'' \<in> set (splitOn is_separator p))"

text \<open>A path that can be listed: it passes \<open>validatePath\<close>, it resolves to a directory,
  and reading that directory yields \<open>fileNames\<close>.\<close>

definition listable :: "host \<Rightarrow> string \<Rightarrow> string list \<Rightarrow> bool" where
  "listable h dirPath fileNames =
    (validatePath h dirPath = Inr ()
     \<and> (case stat h (resolve h dirPath) of None \<Rightarrow> False | Some st \<Rightarrow> st_isDirectory st)
     \<and> readdir h (resolve h dirPath) = Some fileNames)"

text \<open>The items a request for one page returns (none when the call fails).\<close>

definition pageItems ::
  "host \<Rightarrow> string \<Rightarrow> int \<Rightarrow> bool \<Rightarrow> sort_key \<Rightarrow> sort_order \<Rightarrow> int \<Rightarrow> FileInfo list" where
  "pageItems h dirPath limit includeHidden sortBy sortOrder page =
    (case listDirectory h dirPath page limit includeHidden sortBy sortOrder of
       Inr r \<Rightarrow> lr_items r
     | Inl e \<Rightarrow> [])"

text \<open>The hidden flag of an entry, as a function of its name.\<close>

definition isHiddenName :: "host \<Rightarrow> string \<Rightarrow> bool" where
  "isHiddenName h fileName =
    (startsWith fileName ''.'' \<or> (win32 h \<and> startsWith fileName ''$''))"

text \<open>A child whose metadata can be resolved: its \<open>stat\<close> call succeeds.\<close>

definition resolvable :: "host \<Rightarrow> string \<Rightarrow> string \<Rightarrow> bool" where
  "resolvable h normalizedPath fileName = (stat h (join h normalizedPath fileName) \<noteq> None)"

text \<open>The host in which the directory at \<open>normalizedPath\<close> lists \<open>fileNames\<close>, all else
  being equal.\<close>

definition withListing :: "host \<Rightarrow> string \<Rightarrow> string list \<Rightarrow> host" where
  "withListing h normalizedPath fileNames =
    h\<lparr>readdir := (\<lambda>p. if p = normalizedPath then Some fileNames else readdir h p)\<rparr>"

text \<open>Clamping a page size to 1..1000, as the specification words it.\<close>

definition clampLimit :: "int \<Rightarrow> int" where
  "clampLimit limit = max 1 (min 1000 limit)"

text \<open>The page size is in range, as the specification words it.\<close>

definition limitInRange :: "int \<Rightarrow> bool" where
  "limitInRange limit = (1 \<le> limit \<and> limit \<le> 1000)"

section \<open>A sample host\<close>

text \<open>
  A small POSIX host on which the functions are evaluated: its path functions work on
  \<open>/\<close>-separated segments with the working directory \<open>/\<close>, its collation compares
  character codes, and every timestamp is the epoch. An access probe takes a relative path
  from the working directory. Its file system:
  \<^item> \<open>/data\<close>, a directory whose listing is \<open>c.txt, a.txt, .hidden, ghost, sub, locked,
    b.txt\<close>, where \<open>ghost\<close> cannot be stat'ed (it vanished after the listing), \<open>sub\<close> is
    a directory and \<open>locked\<close> is a file that passes no access probe;
  \<^item> \<open>/abc\<close>, a directory whose listing is \<open>b, c, a\<close>, three files;
  \<^item> \<open>/empty\<close>, a directory without entries;
  \<^item> nothing else: \<open>/missing\<close> does not exist.
\<close>

definition isSlash :: "char \<Rightarrow> bool" where
  "isSlash c = (c = CHR ''/'')"

fun collapse :: "bool \<Rightarrow> string list \<Rightarrow> string list \<Rightarrow> string list" where
  "collapse isAbsolute [] acc = rev acc"
| "collapse isAbsolute (s # ss) acc =
    (if s = [] \<or> s = ''.'' then collapse isAbsolute ss acc
     else if s = ''..'' then
       (case acc of
          [] \<Rightarrow> if isAbsolute then collapse isAbsolute ss [] else collapse isAbsolute ss [s]
        | t # ts \<Rightarrow>
            if t = ''..'' then collapse isAbsolute ss (s # acc)
            else collapse isAbsolute ss ts)
     else collapse isAbsolute ss (s # acc))"

fun joinSegments :: "string list \<Rightarrow> string" where
  "joinSegments [] = []"
| "joinSegments [s] = s"
| "joinSegments (s # t # ss) = s @ ''/'' @ joinSegments (t # ss)"

definition demo_normalize :: "string \<Rightarrow> string" where
  "demo_normalize p =
    (case p of
       [] \<Rightarrow> ''.''
     | c # cs \<Rightarrow>
         let isAbsolute = isSlash c;
             trailing = isSlash (last p);
             body = joinSegments (collapse isAbsolute (splitOn isSlash p) [])
         in if body = [] then (if isAbsolute then ''/'' else if trailing then ''./'' else ''.'')
            else (if isAbsolute then ''/'' else []) @ body @ (if trailing then ''/'' else []))"

definition demo_resolve :: "string \<Rightarrow> string" where
  "demo_resolve p = ''/'' @ joinSegments (collapse True (splitOn isSlash p) [])"

definition demo_join :: "string \<Rightarrow> string \<Rightarrow> string" where
  "demo_join a b = demo_normalize (a @ ''/'' @ b)"

definition demo_extname :: "string \<Rightarrow> string" where
  "demo_extname fileName =
    (let stem = takeWhile (\<lambda>c. c \<noteq> CHR ''.'') (rev fileName)
     in if length stem + 1 < length fileName then ''.'' @ rev stem else [])"

definition demo_toLowerCase :: "string \<Rightarrow> string" where
  "demo_toLowerCase s =
    map (\<lambda>c. if (65::nat) \<le> of_char c \<and> of_char c \<le> (90::nat)
               then char_of (of_char c + (32::nat)) else c) s"

fun demo_localeCompare :: "string \<Rightarrow> string \<Rightarrow> int" where
  "demo_localeCompare [] [] = 0"
| "demo_localeCompare [] (y # ys) = - 1"
| "demo_localeCompare (x # xs) [] = 1"
| "demo_localeCompare (x # xs) (y # ys) =
    (if (of_char x :: nat) < of_char y then - 1
     else if (of_char y :: nat) < of_char x then 1
     else demo_localeCompare xs ys)"

definition demo_file :: "nat \<Rightarrow> stats" where
  "demo_file n =
    \<lparr>st_isDirectory = False, st_isFile = True, st_size = n, st_mode = 33188,
     st_uid = 1000, st_gid = 1000, st_atime = 0, st_mtime = 0, st_birthtime = 0\<rparr>"

definition demo_dir :: stats where
  "demo_dir =
    \<lparr>st_isDirectory = True, st_isFile = False, st_size = 4096, st_mode = 16877,
     st_uid = 1000, st_gid = 1000, st_atime = 0, st_mtime = 0, st_birthtime = 0\<rparr>"

definition demo_stat :: "string \<Rightarrow> stats option" where
  "demo_stat =
    map_of
      [(''/data'', demo_dir),
       (''/data/a.txt'', demo_file 5),
       (''/data/b.txt'', demo_file 10),
       (''/data/c.txt'', demo_file 7),
       (''/data/.hidden'', demo_file 1),
       (''/data/sub'', demo_dir),
       (''/data/locked'', demo_file 3),
       (''/abc'', demo_dir),
       (''/abc/a'', demo_file 1),
       (''/abc/b'', demo_file 2),
       (''/abc/c'', demo_file 3),
       (''/empty'', demo_dir)]"

definition demo_access :: "string \<Rightarrow> access_mode \<Rightarrow> bool" where
  "demo_access p m =
    (let q = demo_resolve p
     in if q = ''/data/locked'' then False
        else case demo_stat q of
               None \<Rightarrow> False
             | Some st \<Rightarrow>
                 m = R_OK \<or> (m = W_OK \<and> st_isFile st) \<or> (m = X_OK \<and> st_isDirectory st))"

definition demo_readdir :: "string \<Rightarrow> string list option" where
  "demo_readdir =
    map_of
      [(''/data'', [''c.txt'', ''a.txt'', ''.hidden'', ''ghost'', ''sub'', ''locked'', ''b.txt'']),
       (''/abc'', [''b'', ''c'', ''a'']),
       (''/empty'', [])]"

definition demo_host :: host where
  "demo_host =
    \<lparr>normalize = demo_normalize,
     resolve = demo_resolve,
     join = demo_join,
     extname = demo_extname,
     toLowerCase = demo_toLowerCase,
     localeCompare = demo_localeCompare,
     toISOString = (\<lambda>t. ''1970-01-01T00:00:00.000Z''),
     getTime = (\<lambda>s. 0),
     access = demo_access,
     stat = demo_stat,
     readdir = demo_readdir,
     win32 = False,
     userInfo = Some ''svc'',
     now = ''2025-01-01T00:00:00.000Z''\<rparr>"

text \<open>A path of 4099 characters that starts with a parent-directory segment.\<close>

definition long_path :: string where
  "long_path = ''../a'' @ replicate 4095 (CHR ''a'')"

definition abc_file :: "string \<Rightarrow> nat \<Rightarrow> FileInfo" where
  "abc_file n sz =
    \<lparr>fi_name = n, fi_path = ''/abc/'' @ n, fi_size = sz, fi_extension = [], fi_type = File,
     fi_createdDate = ''1970-01-01T00:00:00.000Z'',
     fi_modifiedDate = ''1970-01-01T00:00:00.000Z'',
     fi_permissions =
       \<lparr>readable = True, writable = True, executable = False,
        owner = ''svc'', group = ''1000'', mode = ''100644''\<rparr>,
     fi_isHidden = False\<rparr>"

definition data_info ::
  "string \<Rightarrow> entry_type \<Rightarrow> nat \<Rightarrow> string \<Rightarrow> bool \<Rightarrow> bool \<Rightarrow> bool \<Rightarrow> FileInfo" where
  "data_info n ty sz ext r w x =
    \<lparr>fi_name = n, fi_path = ''/data/'' @ n, fi_size = sz, fi_extension = ext, fi_type = ty,
     fi_createdDate = ''1970-01-01T00:00:00.000Z'',
     fi_modifiedDate = ''1970-01-01T00:00:00.000Z'',
     fi_permissions =
       \<lparr>readable = r, writable = w, executable = x, owner = ''svc'', group = ''1000'',
        mode = (if ty = Directory then ''40755'' else ''100644'')\<rparr>,
     fi_isHidden = startsWith n ''.''\<rparr>"

definition data_names :: "string list" where
  "data_names = [''c.txt'', ''a.txt'', ''.hidden'', ''ghost'', ''sub'', ''locked'', ''b.txt'']"

text \<open>Access probes that fail for everything but the directory \<open>/data\<close> itself.\<close>

definition deny_children :: "string \<Rightarrow> access_mode \<Rightarrow> bool" where
  "deny_children p m = (p = ''/data'')"

text \<open>A listing request for \<open>/abc\<close> that sets at most the limit.\<close>

definition abc_query :: "int query_param \<Rightarrow> list_query" where
  "abc_query limit =
    \<lparr>q_path = Some ''/abc'', q_page = Absent, q_limit = limit, q_includeHidden = Absent,
     q_sortBy = Absent, q_sortOrder = Absent\<rparr>"

section \<open>Auxiliary facts\<close>

subsection \<open>The listing call on a listable path\<close>

lemma listDirectory_listable:
  assumes "listable h dirPath fileNames"
  shows "listDirectory h dirPath page limit includeHidden sortBy sortOrder =
    Inr (buildResponse h (resolve h dirPath) page limit
          (allItems h (resolve h dirPath) includeHidden sortBy sortOrder fileNames))"
  using assms by (auto simp: listDirectory_def listable_def Let_def split: option.splits)

lemma pageItems_listable:
  assumes "listable h dirPath fileNames"
  shows "pageItems h dirPath limit ih sb so page =
    lr_items (buildResponse h (resolve h dirPath) page limit
      (allItems h (resolve h dirPath) ih sb so fileNames))"
  by (simp add: pageItems_def listDirectory_listable [OF assms])

subsection \<open>Sorting permutes\<close>

lemma mset_insertSorted: "mset (insertSorted cmp x ys) = add_mset x (mset ys)"
  by (induction ys) auto

lemma mset_js_sort: "mset (js_sort cmp xs) = mset xs"
  by (induction xs) (auto simp: js_sort_def mset_insertSorted)

lemma length_js_sort: "length (js_sort cmp xs) = length xs"
  by (metis mset_js_sort size_mset)

subsection \<open>Slices and page counts\<close>

lemma js_slice_window:
  assumes "0 \<le> a" "0 \<le> l"
  shows "js_slice xs a (a + l) = take (nat l) (drop (nat a) xs)"
proof (cases "a \<le> int (length xs)")
  case True
  then show ?thesis using assms
    by (auto simp: js_slice_def Let_def min_def nat_add_distrib)
next
  case False
  then show ?thesis using assms
    by (auto simp: js_slice_def Let_def min_def)
qed

lemma concat_windows:
  assumes "0 < n"
  shows "concat (map (\<lambda>k. take n (drop (k * n) xs)) [0..<m]) = take (m * n) xs"
proof (induction m)
  case 0
  then show ?case by simp
next
  case (Suc m)
  have "take (m * n) xs @ take n (drop (m * n) xs) = take (m * n + n) xs"
    by (simp add: take_add)
  with Suc show ?case by (simp add: add.commute)
qed

lemma upto_as_map: "[1..int n] = map (\<lambda>k. int k + 1) [0..<n]"
proof (induction n)
  case 0
  then show ?case by simp
next
  case (Suc n)
  have "[1..int (Suc n)] = [1..int n] @ [int n + 1]"
    using upto_rec2 [of 1 "int (Suc n)"] by (simp add: add.commute)
  with Suc show ?case by simp
qed

lemma div_mult_le_int:
  assumes "1 \<le> (b::int)"
  shows "a div b * b \<le> a"
proof -
  have "a div b * b + a mod b = a" by (rule div_mult_mod_eq)
  moreover have "0 \<le> a mod b" using assms by simp
  ultimately show ?thesis by linarith
qed

lemma ceilDiv_Finite:
  assumes "1 \<le> limit"
  shows "ceilDiv n limit = Finite (- ((- int n) div limit))"
  using assms by (simp add: ceilDiv_def)

lemma ceil_nonneg:
  assumes "1 \<le> limit"
  shows "0 \<le> - ((- int n) div limit)"
  using assms by (simp add: div_nonpos_pos_le0)

lemma ceil_covers:
  assumes "1 \<le> limit"
  shows "int n \<le> (- ((- int n) div limit)) * limit"
  using div_mult_le_int [OF assms, of "- int n"] by simp

lemma ceilDiv_ceiling:
  assumes "limit \<noteq> 0"
  shows "ceilDiv n limit = Finite \<lceil>real n / real_of_int limit\<rceil>"
proof -
  have "\<lceil>real_of_int (int n) / real_of_int limit\<rceil> = - (- int n div limit)"
    by (rule ceiling_divide_eq_div)
  then show ?thesis using assms by (simp add: ceilDiv_def)
qed

lemma buildResponse_items:
  assumes "1 \<le> page" "0 \<le> limit"
  shows "lr_items (buildResponse h np page limit items) =
    take (nat limit) (drop (nat ((page - 1) * limit)) items)"
proof -
  have "0 \<le> (page - 1) * limit" using assms by simp
  then show ?thesis
    using assms by (simp add: buildResponse_def Let_def js_slice_window)
qed

lemma pages_concat:
  assumes "1 \<le> limit"
  shows "concat (map (\<lambda>page. lr_items (buildResponse h np page limit items))
           [1..- ((- int (length items)) div limit)]) = items"
proof -
  define tp where "tp = nat (- ((- int (length items)) div limit))"
  define n where "n = nat limit"
  have n: "0 < n" "int n = limit" using assms by (simp_all add: n_def)
  have tp: "int tp = - ((- int (length items)) div limit)"
    using ceil_nonneg [OF assms, of "length items"] by (simp add: tp_def)
  have page: "lr_items (buildResponse h np (int k + 1) limit items) = take n (drop (k * n) items)"
    for k
  proof -
    have "nat (int k * limit) = k * n"
      using n by (metis nat_int of_nat_mult)
    then show ?thesis
      using assms buildResponse_items [of "int k + 1" limit h np items] by (simp add: n_def)
  qed
  have "int (length items) \<le> int tp * int n"
    using ceil_covers [OF assms, of "length items"] tp n by simp
  then have cover: "length items \<le> tp * n"
    by (metis of_nat_le_iff of_nat_mult)
  have "concat (map (\<lambda>page. lr_items (buildResponse h np page limit items)) [1..int tp])
      = concat (map (\<lambda>k. take n (drop (k * n) items)) [0..<tp])"
    by (simp add: upto_as_map comp_def page)
  also have "\<dots> = take (tp * n) items"
    using n by (simp add: concat_windows)
  also have "\<dots> = items"
    using cover by simp
  finally show ?thesis by (simp add: tp)
qed

subsection \<open>The sample host, evaluated\<close>

lemmas demo_path_defs = demo_normalize_def demo_resolve_def demo_join_def isSlash_def

lemma listable_abc: "listable demo_host ''/abc'' [''b'', ''c'', ''a'']"
  by (simp add: listable_def validatePath_def demo_host_def demo_path_defs MAX_PATH_LENGTH_def
      isRestricted_def RESTRICTED_PATHS_def backslash_def demo_toLowerCase_def js_includes_def sublist_Cons_right
      demo_access_def demo_stat_def demo_readdir_def demo_dir_def)

lemma listable_empty: "listable demo_host ''/empty'' []"
  by (simp add: listable_def validatePath_def demo_host_def demo_path_defs MAX_PATH_LENGTH_def
      isRestricted_def RESTRICTED_PATHS_def backslash_def demo_toLowerCase_def js_includes_def
      sublist_Cons_right demo_access_def demo_stat_def demo_readdir_def demo_dir_def)

lemma all_empty: "allItems h np ih sb so [] = []"
  by (simp add: allItems_def collectItems_def List.map_filter_simps js_sort_def)

lemma resolve_abc: "resolve demo_host ''/abc'' = ''/abc''"
  by (simp add: demo_host_def demo_path_defs)

lemma collect_abc:
  "collectItems demo_host ''/abc'' False [''b'', ''c'', ''a''] =
    [abc_file ''b'' 2, abc_file ''c'' 3, abc_file ''a'' 1]"
  by (simp add: collectItems_def List.map_filter_def listEntry_def createFileInfo_def
      getFilePermissions_def demo_host_def demo_path_defs demo_stat_def demo_access_def
      demo_file_def demo_extname_def demo_toLowerCase_def startsWith_def abc_file_def
      digit_char_def)

lemma all_abc:
  "allItems demo_host ''/abc'' False ByName Asc [''b'', ''c'', ''a''] =
    [abc_file ''a'' 1, abc_file ''b'' 2, abc_file ''c'' 3]"
  unfolding allItems_def collect_abc
  by (simp add: js_sort_def compareItems_def abc_file_def demo_host_def)

subsection \<open>Aggregates of a sorted list\<close>

lemma foldl_sizes:
  fixes f :: "'a \<Rightarrow> nat"
  shows "foldl (\<lambda>sum item. sum + f item) a xs = a + sum_list (map f xs)"
  by (induction xs arbitrary: a) (auto simp: ac_simps)

lemma length_filter_js_sort: "length (filter P (js_sort cmp xs)) = length (filter P xs)"
proof -
  have "mset (filter P (js_sort cmp xs)) = mset (filter P xs)"
    by (simp add: mset_js_sort)
  then show ?thesis by (metis size_mset)
qed

lemma sum_filter_js_sort:
  fixes f :: "'a \<Rightarrow> nat"
  shows "sum_list (map f (filter P (js_sort cmp xs))) = sum_list (map f (filter P xs))"
proof -
  have "mset (map f (filter P (js_sort cmp xs))) = mset (map f (filter P xs))"
    by (simp add: mset_js_sort)
  then have "sum_mset (mset (map f (filter P (js_sort cmp xs))))
      = sum_mset (mset (map f (filter P xs)))"
    by (rule arg_cong)
  then show ?thesis by (simp only: sum_mset_sum_list)
qed

lemma type_partition:
  "length (filter (\<lambda>item. fi_type item = File) xs)
     + length (filter (\<lambda>item. fi_type item = Directory) xs) = length xs"
proof (induction xs)
  case Nil
  then show ?case by simp
next
  case (Cons x xs)
  then show ?case by (cases "fi_type x") auto
qed

subsection \<open>The sample directory \<open>/data\<close>, evaluated\<close>

lemma listable_data: "listable demo_host ''/data'' data_names"
  by (simp add: listable_def validatePath_def demo_host_def demo_path_defs MAX_PATH_LENGTH_def
      isRestricted_def RESTRICTED_PATHS_def backslash_def demo_toLowerCase_def js_includes_def sublist_Cons_right
      demo_access_def demo_stat_def demo_readdir_def demo_dir_def data_names_def)

lemma resolve_data: "resolve demo_host ''/data'' = ''/data''"
  by (simp add: demo_host_def demo_path_defs)

lemmas entry_defs = listEntry_def createFileInfo_def
      getFilePermissions_def demo_host_def demo_path_defs demo_stat_def demo_access_def
      demo_file_def demo_dir_def demo_extname_def demo_toLowerCase_def startsWith_def
      data_info_def digit_char_def

lemma entry_c: "listEntry demo_host ''/data'' ih ''c.txt''
    = Some (data_info ''c.txt'' File 7 ''.txt'' True True False)"
  by (simp add: entry_defs)

lemma entry_a: "listEntry demo_host ''/data'' ih ''a.txt''
    = Some (data_info ''a.txt'' File 5 ''.txt'' True True False)"
  by (simp add: entry_defs)

lemma entry_b: "listEntry demo_host ''/data'' ih ''b.txt''
    = Some (data_info ''b.txt'' File 10 ''.txt'' True True False)"
  by (simp add: entry_defs)

lemma entry_hidden: "listEntry demo_host ''/data'' ih ''.hidden''
    = (if ih then Some (data_info ''.hidden'' File 1 [] True True False) else None)"
  by (simp add: entry_defs)

lemma entry_ghost: "listEntry demo_host ''/data'' ih ''ghost'' = None"
  by (simp add: entry_defs)

lemma entry_sub: "listEntry demo_host ''/data'' ih ''sub''
    = Some (data_info ''sub'' Directory 0 [] True False True)"
  by (simp add: entry_defs)

lemma entry_locked: "listEntry demo_host ''/data'' ih ''locked''
    = Some (data_info ''locked'' File 3 [] False False False)"
  by (simp add: entry_defs)

lemmas data_entries = entry_c entry_a entry_b entry_hidden entry_ghost entry_sub entry_locked

lemma collect_data:
  "collectItems demo_host ''/data'' False data_names =
    [data_info ''c.txt'' File 7 ''.txt'' True True False,
     data_info ''a.txt'' File 5 ''.txt'' True True False,
     data_info ''sub'' Directory 0 [] True False True,
     data_info ''locked'' File 3 [] False False False,
     data_info ''b.txt'' File 10 ''.txt'' True True False]"
  by (simp add: collectItems_def List.map_filter_def data_names_def data_entries)

subsection \<open>Per-entry resolution\<close>

lemma createFileInfo_None: "createFileInfo h filePath fileName = None \<longleftrightarrow> stat h filePath = None"
  by (simp add: createFileInfo_def Let_def split: option.splits)

lemma getFilePermissions_flags:
  "readable (getFilePermissions h p st) = access h p R_OK"
  "writable (getFilePermissions h p st) = access h p W_OK"
  "executable (getFilePermissions h p st) = access h p X_OK"
  by (simp_all add: getFilePermissions_def Let_def split: option.splits)

lemma createFileInfo_Some:
  assumes "createFileInfo h filePath fileName = Some info"
  shows "fi_name info = fileName" and "fi_path info = filePath"
    and "fi_isHidden info = isHiddenName h fileName"
    and "readable (fi_permissions info) = access h filePath R_OK"
    and "writable (fi_permissions info) = access h filePath W_OK"
    and "executable (fi_permissions info) = access h filePath X_OK"
  using assms
  by (auto simp: createFileInfo_def Let_def isHiddenName_def getFilePermissions_flags
      split: option.splits)

lemma listEntry_Some_iff:
  "(\<exists>info. listEntry h np ih n = Some info) \<longleftrightarrow> resolvable h np n \<and> (ih \<or> \<not> isHiddenName h n)"
proof (cases "createFileInfo h (join h np n) n")
  case None
  then show ?thesis
    using createFileInfo_None [of h "join h np n" n] by (simp add: listEntry_def resolvable_def)
next
  case (Some info)
  then have "stat h (join h np n) \<noteq> None"
    using createFileInfo_None [of h "join h np n" n] by simp
  then show ?thesis
    using Some createFileInfo_Some(3) [OF Some] by (auto simp: listEntry_def resolvable_def)
qed

lemma listEntry_Some:
  assumes "listEntry h np ih n = Some info"
  shows "fi_name info = n" and "fi_path info = join h np n"
    and "readable (fi_permissions info) = access h (fi_path info) R_OK"
    and "writable (fi_permissions info) = access h (fi_path info) W_OK"
    and "executable (fi_permissions info) = access h (fi_path info) X_OK"
proof -
  from assms have c: "createFileInfo h (join h np n) n = Some info"
    by (auto simp: listEntry_def split: option.splits if_splits)
  show "fi_name info = n" and p: "fi_path info = join h np n"
    using createFileInfo_Some(1,2) [OF c] by simp_all
  show "readable (fi_permissions info) = access h (fi_path info) R_OK"
    and "writable (fi_permissions info) = access h (fi_path info) W_OK"
    and "executable (fi_permissions info) = access h (fi_path info) X_OK"
    unfolding p using createFileInfo_Some(4,5,6) [OF c] by simp_all
qed

lemma names_collectItems:
  "map fi_name (collectItems h np ih ns)
     = filter (\<lambda>n. resolvable h np n \<and> (ih \<or> \<not> isHiddenName h n)) ns"
proof (induction ns)
  case Nil
  then show ?case by (simp add: collectItems_def List.map_filter_simps)
next
  case (Cons n ns)
  show ?case
  proof (cases "listEntry h np ih n")
    case None
    then have "\<not> (resolvable h np n \<and> (ih \<or> \<not> isHiddenName h n))"
      using listEntry_Some_iff [of h np ih n] by simp
    with None Cons show ?thesis
      by (simp add: collectItems_def List.map_filter_simps)
  next
    case (Some info)
    then have "resolvable h np n \<and> (ih \<or> \<not> isHiddenName h n)"
      using listEntry_Some_iff [of h np ih n] by blast
    with Some Cons listEntry_Some(1) [OF Some] show ?thesis
      by (simp add: collectItems_def List.map_filter_simps)
  qed
qed

lemma collectItems_resolvable:
  "collectItems h np ih (filter (resolvable h np) ns) = collectItems h np ih ns"
proof (induction ns)
  case Nil
  then show ?case by simp
next
  case (Cons n ns)
  show ?case
  proof (cases "resolvable h np n")
    case True
    with Cons show ?thesis
      by (simp add: collectItems_def List.map_filter_simps split: option.splits)
  next
    case False
    then have "listEntry h np ih n = None"
      using listEntry_Some_iff [of h np ih n] by (cases "listEntry h np ih n") auto
    with False Cons show ?thesis by (simp add: collectItems_def List.map_filter_simps)
  qed
qed

lemma set_collectItems:
  assumes "item \<in> set (collectItems h np ih ns)"
  shows "\<exists>n \<in> set ns. listEntry h np ih n = Some item"
  using assms by (auto simp: collectItems_def List.map_filter_def)

subsection \<open>Hosts that agree on what a function reads\<close>

lemma validatePath_agree:
  assumes "normalize h' = normalize h" "toLowerCase h' = toLowerCase h" "access h' = access h"
  shows "validatePath h' dirPath = validatePath h dirPath"
  unfolding validatePath_def isRestricted_def assms ..

lemma collectItems_agree:
  assumes "stat h' = stat h" "join h' = join h" "access h' = access h"
    "extname h' = extname h" "toLowerCase h' = toLowerCase h"
    "toISOString h' = toISOString h" "win32 h' = win32 h" "userInfo h' = userInfo h"
  shows "collectItems h' np ih ns = collectItems h np ih ns"
  unfolding collectItems_def listEntry_def createFileInfo_def getFilePermissions_def assms ..

lemma allItems_agree:
  assumes "collectItems h' np ih ns = collectItems h np ih ns"
    "localeCompare h' = localeCompare h" "getTime h' = getTime h"
  shows "allItems h' np ih sb so ns = allItems h np ih sb so ns"
  unfolding allItems_def compareItems_def [abs_def] assms ..

lemma validatePath_withListing:
  "validatePath (withListing h np ns) dirPath = validatePath h dirPath"
  by (rule validatePath_agree) (simp_all add: withListing_def)

lemma collectItems_withListing:
  "collectItems (withListing h np ns) np' ih ns' = collectItems h np' ih ns'"
  by (rule collectItems_agree) (simp_all add: withListing_def)

lemma allItems_withListing:
  "allItems (withListing h np ns) np' ih sb so ns' = allItems h np' ih sb so ns'"
  by (rule allItems_agree, rule collectItems_withListing) (simp_all add: withListing_def)

lemma buildResponse_withListing:
  "buildResponse (withListing h np ns) np' page limit items = buildResponse h np' page limit items"
  by (simp add: buildResponse_def withListing_def Let_def)

lemma resolve_withListing: "resolve (withListing h np ns) = resolve h"
  by (simp add: withListing_def)

lemmas withListing_simps = validatePath_withListing collectItems_withListing
  allItems_withListing buildResponse_withListing resolve_withListing

lemma listable_withListing:
  assumes "listable h dirPath fileNames"
  shows "listable (withListing h (resolve h dirPath) ns) dirPath ns"
  using assms
  by (simp add: listable_def validatePath_withListing resolve_withListing)
    (simp add: withListing_def)

lemma validatePath_Inr:
  "validatePath h dirPath = Inr () \<longleftrightarrow>
     dirPath \<noteq> [] \<and> length dirPath \<le> MAX_PATH_LENGTH
     \<and> \<not> js_includes (normalize h dirPath) ''..''
     \<and> \<not> isRestricted h (normalize h dirPath)
     \<and> access h (normalize h dirPath) R_OK"
  by (auto simp: validatePath_def Let_def)

lemma listable_probes:
  assumes "listable h dirPath fileNames" and "probes (normalize h dirPath) R_OK"
  shows "listable (h\<lparr>access := probes\<rparr>) dirPath fileNames"
  using assms by (simp add: listable_def validatePath_Inr isRestricted_def)

lemma resolvable_probes: "resolvable (h\<lparr>access := probes\<rparr>) = resolvable h"
  by (simp add: resolvable_def fun_eq_iff)

lemma isHiddenName_probes: "isHiddenName (h\<lparr>access := probes\<rparr>) = isHiddenName h"
  by (simp add: isHiddenName_def fun_eq_iff)

lemma getDirectoryMetadata_guard_error:
  assumes "validatePath h dirPath = Inl e"
  shows "getDirectoryMetadata h dirPath =
    (if statusCode e = Some 404 then Inr (notFoundMetadata (resolve h dirPath)) else Inl e)"
  using assms by (simp add: getDirectoryMetadata_def probe_def Let_def)

subsection \<open>The sample host and Path Guard\<close>

lemmas guard_defs = validatePath_def MAX_PATH_LENGTH_def isRestricted_def RESTRICTED_PATHS_def
  backslash_def js_includes_def sublist_Cons_right demo_host_def demo_path_defs
  demo_toLowerCase_def demo_access_def demo_stat_def demo_file_def demo_dir_def

lemma guard_missing: "validatePath demo_host ''/missing'' = Inl NotFound"
  by (simp add: guard_defs)

lemma guard_traversal: "validatePath demo_host ''a/../../etc'' = Inl PathTraversal"
  by (simp add: guard_defs)

lemma guard_restricted: "validatePath demo_host ''/etc/passwd'' = Inl AccessDenied"
  by (simp add: guard_defs)

lemma guard_empty: "validatePath demo_host [] = Inl InvalidInput"
  by (simp add: validatePath_def)

lemma guard_file: "validatePath demo_host ''/data/a.txt'' = Inr ()"
  by (simp add: guard_defs)

lemma guard_relative: "validatePath demo_host ''../data/a.txt'' = Inl PathTraversal"
  by (simp add: guard_defs)

lemma stat_file: "stat demo_host (resolve demo_host ''/data/a.txt'') = Some (demo_file 5)"
  by (simp add: demo_host_def demo_path_defs demo_stat_def)

lemma traversal_relative: "hasTraversalSegment (normalize demo_host ''../data/a.txt'')"
  by (simp add: hasTraversalSegment_def demo_host_def demo_path_defs is_separator_def
      backslash_def)

lemma relative_facts:
  "stat demo_host (resolve demo_host ''../data/a.txt'') = Some (demo_file 5)"
  "access demo_host (normalize demo_host ''../data/a.txt'') R_OK"
  "\<not> isRestricted demo_host (normalize demo_host ''../data/a.txt'')"
  "st_isFile (demo_file 5)" "\<not> st_isDirectory (demo_file 5)"
  by (simp_all add: guard_defs Let_def)

lemma normalize_data: "normalize demo_host ''/data'' = ''/data''"
  by (simp add: demo_host_def demo_path_defs)

lemma kept_data:
  "filter (\<lambda>n. resolvable demo_host ''/data'' n \<and> (True \<or> \<not> isHiddenName demo_host n)) data_names
    = [''c.txt'', ''a.txt'', ''.hidden'', ''sub'', ''locked'', ''b.txt'']"
  by (simp add: data_names_def resolvable_def demo_host_def demo_path_defs demo_stat_def)

lemma ghost_unresolvable: "\<not> resolvable demo_host ''/data'' ''ghost''"
  by (simp add: resolvable_def demo_host_def demo_path_defs demo_stat_def)

subsection \<open>Segments are substrings\<close>

lemma splitOn_nonempty: "splitOn sep s \<noteq> []"
  by (induction s) (auto split: list.splits)

lemma hd_splitOn_prefix: "prefix (hd (splitOn sep s)) s"
proof (induction s)
  case Nil
  then show ?case by simp
next
  case (Cons c cs)
  then show ?case
    using splitOn_nonempty [of sep cs] by (auto split: list.splits)
qed

lemma splitOn_sublist:
  assumes "seg \<in> set (splitOn sep s)"
  shows "sublist seg s"
  using assms
proof (induction s arbitrary: seg)
  case Nil
  then show ?case by simp
next
  case (Cons c cs)
  show ?case
  proof (cases "sep c")
    case True
    with Cons.prems have "seg = [] \<or> seg \<in> set (splitOn sep cs)" by simp
    then show ?thesis
      using Cons.IH by (auto simp: sublist_Cons_right)
  next
    case False
    obtain x xs where x: "splitOn sep cs = x # xs"
      using splitOn_nonempty [of sep cs] by (cases "splitOn sep cs") auto
    with False Cons.prems have "seg = c # x \<or> seg \<in> set xs" by simp
    then show ?thesis
    proof
      assume "seg = c # x"
      moreover have "prefix x cs"
        using hd_splitOn_prefix [of sep cs] x by simp
      ultimately show ?thesis by (simp add: sublist_Cons_right)
    next
      assume "seg \<in> set xs"
      then have "sublist seg cs" using Cons.IH x by simp
      then show ?thesis by (simp add: sublist_Cons_right)
    qed
  qed
qed

lemma traversal_segment_included:
  assumes "hasTraversalSegment p"
  shows "js_includes p ''..''"
  using assms splitOn_sublist [of "''..''" is_separator p]
  by (simp add: hasTraversalSegment_def js_includes_def)

lemma validatePath_overlong:
  assumes "length dirPath > 4096"
  shows "validatePath h dirPath = Inl InvalidInput"
  using assms by (simp add: validatePath_def MAX_PATH_LENGTH_def)

lemma validatePath_traversal:
  assumes "dirPath \<noteq> []" and "length dirPath \<le> 4096"
    and "js_includes (normalize h dirPath) ''..''"
  shows "validatePath h dirPath = Inl PathTraversal"
  using assms by (simp add: validatePath_def MAX_PATH_LENGTH_def)

lemma listDirectory_guard_error:
  assumes "validatePath h dirPath = Inl e"
  shows "listDirectory h dirPath page limit ih sb so = Inl e"
  using assms by (simp add: listDirectory_def)

lemma splitOn_run:
  assumes "\<not> sep c"
  shows "splitOn sep (c # replicate n c) = [c # replicate n c]"
  using assms by (induction n) simp_all

lemma normalize_long: "normalize demo_host long_path = long_path"
proof -
  have "splitOn isSlash long_path = [''..'', CHR ''a'' # replicate 4095 (CHR ''a'')]"
    using splitOn_run [of isSlash "CHR ''a''" 4095] by (simp add: long_path_def isSlash_def)
  then show ?thesis
    by (simp add: demo_host_def demo_normalize_def long_path_def isSlash_def)
qed

lemma traversal_long: "hasTraversalSegment long_path"
proof -
  have "splitOn is_separator long_path = [''..'', CHR ''a'' # replicate 4095 (CHR ''a'')]"
    using splitOn_run [of is_separator "CHR ''a''" 4095]
    by (simp add: long_path_def is_separator_def backslash_def)
  then show ?thesis by (simp add: hasTraversalSegment_def)
qed

lemma traversal_example: "hasTraversalSegment (normalize demo_host ''a/../../etc'')"
  by (simp add: hasTraversalSegment_def demo_host_def demo_path_defs is_separator_def
      backslash_def)

subsection \<open>The clock\<close>

lemma buildResponse_now:
  "buildResponse (h\<lparr>now := t\<rparr>) np page limit items
    = (buildResponse h np page limit items)
        \<lparr>lr_metadata := (lr_metadata (buildResponse h np page limit items))\<lparr>scannedAt := t\<rparr>\<rparr>"
  by (simp add: buildResponse_def Let_def)

lemma scannedAt_buildResponse:
  "scannedAt (lr_metadata (buildResponse h np page limit items)) = now h"
  by (simp add: buildResponse_def Let_def)

lemma validatePath_now: "validatePath (h\<lparr>now := t\<rparr>) dirPath = validatePath h dirPath"
  by (rule validatePath_agree) simp_all

lemma collectItems_now:
  "collectItems (h\<lparr>now := t\<rparr>) np ih ns = collectItems h np ih ns"
  by (rule collectItems_agree) simp_all

lemma allItems_now:
  "allItems (h\<lparr>now := t\<rparr>) np ih sb so ns = allItems h np ih sb so ns"
  by (rule allItems_agree, rule collectItems_now) simp_all

lemma listable_now: "listable (h\<lparr>now := t\<rparr>) dirPath ns = listable h dirPath ns"
  by (simp add: listable_def validatePath_now)

lemma listDirectory_Inr_listable:
  assumes "listDirectory h dirPath page limit ih sb so = Inr r"
  shows "\<exists>fileNames. listable h dirPath fileNames"
proof (cases "validatePath h dirPath")
  case (Inl e)
  with assms show ?thesis by (simp add: listDirectory_def)
next
  case (Inr u)
  with assms show ?thesis
    by (auto simp: listDirectory_def listable_def Let_def split: option.splits if_splits)
qed

lemma listDirectory_Inl_now:
  assumes "listDirectory h dirPath page limit ih sb so = Inl e"
  shows "listDirectory (h\<lparr>now := t\<rparr>) dirPath page limit ih sb so = Inl e"
proof (cases "validatePath h dirPath")
  case (Inl e')
  with assms show ?thesis by (simp add: listDirectory_def validatePath_now)
next
  case (Inr u)
  with assms show ?thesis
    by (auto simp: listDirectory_def validatePath_now Let_def split: option.splits if_splits)
qed

subsection \<open>The controller\<close>

lemma controller_rejects:
  assumes "q_limit q = Given l" and "\<not> limitInRange l"
  shows "listDirectoryController h q = ValidationFailed"
proof -
  have "\<not> validateDirectoryListing q"
    using assms by (auto simp: validateDirectoryListing_def limitInRange_def)
  then show ?thesis by (simp add: listDirectoryController_def)
qed

lemma validated_limit:
  assumes "validateDirectoryListing q"
  shows "limitInRange (withDefault 100 (q_limit q))"
  using assms
  by (cases "q_limit q") (simp_all add: validateDirectoryListing_def limitInRange_def)

lemma pg_limit_buildResponse: "pg_limit (lr_pagination (buildResponse h np page limit items)) = limit"
  by (simp add: buildResponse_def Let_def)

lemma listDirectory_Inr_limit:
  assumes "listDirectory h dirPath page limit ih sb so = Inr r"
  shows "pg_limit (lr_pagination r) = limit"
proof -
  obtain ns where "listable h dirPath ns"
    using listDirectory_Inr_listable [OF assms] by auto
  from listDirectory_listable [OF this, of page limit ih sb so] assms
  show ?thesis by (auto simp: pg_limit_buildResponse)
qed

lemma controller_Success:
  assumes "listDirectoryController h q = Success r"
  shows "validateDirectoryListing q"
    and "\<exists>dirPath. listDirectory h dirPath (withDefault 1 (q_page q))
            (withDefault 100 (q_limit q)) (withDefault False (q_includeHidden q))
            (withDefault ByName (q_sortBy q)) (withDefault Asc (q_sortOrder q)) = Inr r"
proof -
  show v: "validateDirectoryListing q"
    using assms by (auto simp: listDirectoryController_def split: if_splits)
  then obtain dirPath where p: "q_path q = Some dirPath"
    by (cases "q_path q") (simp_all add: validateDirectoryListing_def)
  with v assms
  have "listDirectory h dirPath (withDefault 1 (q_page q))
            (withDefault 100 (q_limit q)) (withDefault False (q_includeHidden q))
            (withDefault ByName (q_sortBy q)) (withDefault Asc (q_sortOrder q)) = Inr r"
    by (simp add: listDirectoryController_def split: sum.splits)
  then show "\<exists>dirPath. listDirectory h dirPath (withDefault 1 (q_page q))
            (withDefault 100 (q_limit q)) (withDefault False (q_includeHidden q))
            (withDefault ByName (q_sortBy q)) (withDefault Asc (q_sortOrder q)) = Inr r"
    by blast
qed

lemma abc_unclamped:
  "listDirectory demo_host ''/abc'' 1 limit False ByName Asc
    = Inr (buildResponse demo_host ''/abc'' 1 limit
        [abc_file ''a'' 1, abc_file ''b'' 2, abc_file ''c'' 3])"
  using listDirectory_listable [OF listable_abc, of 1 limit False ByName Asc]
  by (simp add: resolve_abc all_abc)

subsection \<open>The entries of a listing result\<close>

lemma names_allItems:
  "mset (map fi_name (allItems h np ih sb so ns))
    = mset (filter (\<lambda>n. resolvable h np n \<and> (ih \<or> \<not> isHiddenName h n)) ns)"
proof -
  have "mset (map fi_name (allItems h np ih sb so ns)) = mset (map fi_name (collectItems h np ih ns))"
    by (simp add: allItems_def mset_js_sort)
  then show ?thesis by (simp only: names_collectItems)
qed

lemma length_allItems:
  "length (allItems h np ih sb so ns)
    = length (filter (\<lambda>n. resolvable h np n \<and> (ih \<or> \<not> isHiddenName h n)) ns)"
proof -
  have "length (map fi_name (collectItems h np ih ns))
      = length (filter (\<lambda>n. resolvable h np n \<and> (ih \<or> \<not> isHiddenName h n)) ns)"
    by (simp only: names_collectItems)
  then show ?thesis by (simp add: allItems_def length_js_sort)
qed

lemma set_allItems: "set (allItems h np ih sb so ns) = set (collectItems h np ih ns)"
proof -
  have "mset (allItems h np ih sb so ns) = mset (collectItems h np ih ns)"
    by (simp add: allItems_def mset_js_sort)
  then show ?thesis by (rule mset_eq_setD)
qed

lemma set_js_slice: "set (js_slice xs a b) \<subseteq> set xs"
  by (auto simp: js_slice_def Let_def dest: in_set_takeD in_set_dropD)

lemma js_slice_first_page:
  assumes "int (length xs) \<le> limit"
  shows "js_slice xs ((1 - 1) * limit) ((1 - 1) * limit + limit) = xs"
  using assms by (simp add: js_slice_def Let_def)

lemma buildResponse_page:
  "lr_items (buildResponse h np page limit items)
    = js_slice items ((page - 1) * limit) ((page - 1) * limit + limit)"
  "pg_total (lr_pagination (buildResponse h np page limit items)) = length items"
  by (simp_all add: buildResponse_def Let_def)

lemma page_subset:
  "set (lr_items (buildResponse h' np' page limit (allItems h np ih sb so ns)))
    \<subseteq> set (collectItems h np ih ns)"
  using set_js_slice [of "allItems h np ih sb so ns"]
  by (simp add: buildResponse_page set_allItems)

lemma first_page_names:
  assumes "page = 1 \<and> int (length ns) \<le> limit"
  shows "mset (map fi_name (lr_items (buildResponse h' np' page limit (allItems h np ih sb so ns))))
    = mset (filter (\<lambda>n. resolvable h np n \<and> (ih \<or> \<not> isHiddenName h n)) ns)"
proof -
  let ?all = "allItems h np ih sb so ns"
  have "length ?all \<le> length ns"
    by (simp add: length_allItems)
  with assms have "int (length ?all) \<le> limit" by simp
  from js_slice_first_page [OF this] assms
  have "lr_items (buildResponse h' np' page limit ?all) = ?all"
    by (simp add: buildResponse_page)
  then show ?thesis by (simp only: names_allItems)
qed

lemma page_entry:
  assumes "item \<in> set (lr_items (buildResponse h' np' page limit (allItems h np ih sb so ns)))"
  shows "\<exists>n \<in> set ns. listEntry h np ih n = Some item"
  using assms page_subset [of h' np' page limit h np ih sb so ns] set_collectItems [of item h np ih ns]
  by blast

lemma file_facts:
  "\<not> st_isDirectory (demo_file 5)"
  by (simp add: demo_file_def)

section \<open>The claims\<close>

text \<open>
  C1, as stated, fails: the 4099-character path \<open>long_path\<close> normalizes to itself, so its
  normalized form has the segment \<open>..\<close>, yet Path Guard fails with \<open>InvalidInput\<close>,
  not \<open>PathTraversal\<close>: the length check comes first.
\<close>

theorem C1_counterexample:
  "hasTraversalSegment (normalize demo_host long_path)
   \<and> validatePath demo_host long_path = Inl InvalidInput"
proof -
  have "length long_path > 4096" by (simp add: long_path_def)
  then have "validatePath demo_host long_path = Inl InvalidInput"
    by (rule validatePath_overlong)
  then show ?thesis by (simp add: normalize_long traversal_long)
qed

text \<open>
  C1, amended. For every raw path that is not empty and has at most 4096 characters, and
  whose normalized form contains a parent-directory segment \<open>..\<close>, Path Guard fails with
  \<open>PathTraversal\<close> and so does the listing call, whatever \<open>stat\<close> and \<open>readdir\<close> would
  answer: the call never gets to enumerate.
\<close>

theorem C1_traversal_rejected:
  assumes "dirPath \<noteq> []" and "length dirPath \<le> 4096"
    and "hasTraversalSegment (normalize h dirPath)"
  shows "validatePath h dirPath = Inl PathTraversal
    \<and> listDirectory h dirPath page limit includeHidden sortBy sortOrder = Inl PathTraversal
    \<and> (\<forall>statFn listing.
          listDirectory (h\<lparr>stat := statFn, readdir := listing\<rparr>) dirPath page limit
            includeHidden sortBy sortOrder = Inl PathTraversal)"
proof -
  have inc: "js_includes (normalize h dirPath) ''..''"
    by (rule traversal_segment_included [OF assms(3)])
  have guard: "validatePath h dirPath = Inl PathTraversal"
    by (rule validatePath_traversal [OF assms(1,2) inc])
  have "validatePath (h\<lparr>stat := statFn, readdir := listing\<rparr>) dirPath = Inl PathTraversal"
    for statFn listing
    using inc by (intro validatePath_traversal assms(1,2)) simp
  then have "\<forall>statFn listing.
      listDirectory (h\<lparr>stat := statFn, readdir := listing\<rparr>) dirPath page limit
        includeHidden sortBy sortOrder = Inl PathTraversal"
    by (simp add: listDirectory_guard_error)
  with guard listDirectory_guard_error [OF guard] show ?thesis by simp
qed

theorem C1_traversal_rejected_witness:
  "''a/../../etc'' \<noteq> [] \<and> length ''a/../../etc'' \<le> 4096
   \<and> hasTraversalSegment (normalize demo_host ''a/../../etc'')
   \<and> validatePath demo_host ''a/../../etc'' = Inl PathTraversal
   \<and> listDirectory demo_host ''a/../../etc'' 1 100 False ByName Asc = Inl PathTraversal"
proof -
  have n: "''a/../../etc'' \<noteq> []" and s: "length ''a/../../etc'' \<le> 4096"
    by simp_all
  from C1_traversal_rejected [OF n s traversal_example, of 1 100 False ByName Asc]
  have "validatePath demo_host ''a/../../etc'' = Inl PathTraversal"
    and "listDirectory demo_host ''a/../../etc'' 1 100 False ByName Asc = Inl PathTraversal"
    by blast+
  with n s traversal_example show ?thesis by blast
qed

text \<open>
  C2. For a listable directory and a fixed page size of at least 1, every page request
  succeeds and reports the same finite page count, and the items of pages 1 up to that
  count, concatenated in order, are exactly the sorted filtered entry list: each entry
  once, none missing. That list is a permutation of the filtered entries.
\<close>

theorem C2_pages_partition:
  assumes "listable h dirPath fileNames" and "1 \<le> limit"
  shows "\<exists>totalPages.
    (\<forall>page. \<exists>r. listDirectory h dirPath page limit includeHidden sortBy sortOrder = Inr r
               \<and> pg_totalPages (lr_pagination r) = Finite totalPages)
    \<and> concat (map (pageItems h dirPath limit includeHidden sortBy sortOrder) [1..totalPages])
        = allItems h (resolve h dirPath) includeHidden sortBy sortOrder fileNames
    \<and> mset (allItems h (resolve h dirPath) includeHidden sortBy sortOrder fileNames)
        = mset (collectItems h (resolve h dirPath) includeHidden fileNames)"
proof -
  let ?all = "allItems h (resolve h dirPath) includeHidden sortBy sortOrder fileNames"
  let ?tp = "- ((- int (length ?all)) div limit)"
  have every: "\<exists>r. listDirectory h dirPath page limit includeHidden sortBy sortOrder = Inr r
               \<and> pg_totalPages (lr_pagination r) = Finite ?tp" for page
    using assms(2)
    by (simp add: listDirectory_listable [OF assms(1)] buildResponse_def Let_def ceilDiv_Finite)
  have "pageItems h dirPath limit includeHidden sortBy sortOrder
      = (\<lambda>page. lr_items (buildResponse h (resolve h dirPath) page limit ?all))"
    by (rule ext) (rule pageItems_listable [OF assms(1)])
  then have whole:
    "concat (map (pageItems h dirPath limit includeHidden sortBy sortOrder) [1..?tp]) = ?all"
    using pages_concat [OF assms(2)] by simp
  have perm: "mset ?all = mset (collectItems h (resolve h dirPath) includeHidden fileNames)"
    by (simp add: allItems_def mset_js_sort)
  from every whole perm show ?thesis by blast
qed

theorem C2_pages_partition_witness:
  "listable demo_host ''/abc'' [''b'', ''c'', ''a''] \<and> (1::int) \<le> 2
   \<and> pageItems demo_host ''/abc'' 2 False ByName Asc 1 = [abc_file ''a'' 1, abc_file ''b'' 2]
   \<and> pageItems demo_host ''/abc'' 2 False ByName Asc 2 = [abc_file ''c'' 3]
   \<and> concat (map (pageItems demo_host ''/abc'' 2 False ByName Asc) [1..2])
       = [abc_file ''a'' 1, abc_file ''b'' 2, abc_file ''c'' 3]"
proof -
  have l: "listable demo_host ''/abc'' [''b'', ''c'', ''a'']" by (rule listable_abc)
  obtain tp where
    tp: "\<forall>page. \<exists>r. listDirectory demo_host ''/abc'' page 2 False ByName Asc = Inr r
               \<and> pg_totalPages (lr_pagination r) = Finite tp"
    and whole: "concat (map (pageItems demo_host ''/abc'' 2 False ByName Asc) [1..tp])
        = allItems demo_host (resolve demo_host ''/abc'') False ByName Asc [''b'', ''c'', ''a'']"
    using C2_pages_partition [OF l, of 2 False ByName Asc] by auto
  have "pg_totalPages (lr_pagination (buildResponse demo_host ''/abc'' 1 2
          [abc_file ''a'' 1, abc_file ''b'' 2, abc_file ''c'' 3])) = Finite 2"
    by (simp add: buildResponse_def Let_def ceilDiv_def)
  with tp [rule_format, of 1] have "tp = 2"
    by (simp add: listDirectory_listable [OF l] resolve_abc all_abc)
  have p1: "pageItems demo_host ''/abc'' 2 False ByName Asc 1 = [abc_file ''a'' 1, abc_file ''b'' 2]"
    by (simp add: pageItems_listable [OF l] resolve_abc all_abc buildResponse_def Let_def
        js_slice_def)
  have p2: "pageItems demo_host ''/abc'' 2 False ByName Asc 2 = [abc_file ''c'' 3]"
    by (simp add: pageItems_listable [OF l] resolve_abc all_abc buildResponse_def Let_def
        js_slice_def)
  from whole \<open>tp = 2\<close> have "concat (map (pageItems demo_host ''/abc'' 2 False ByName Asc) [1..2])
       = [abc_file ''a'' 1, abc_file ''b'' 2, abc_file ''c'' 3]"
    by (simp add: resolve_abc all_abc)
  with l p1 p2 show ?thesis by simp
qed

text \<open>
  C3, as stated, fails: a listing call with limit 0 succeeds, reports the limit 0 and the
  page count \<open>Infinity\<close> and returns no item, where the limit clamped to 1 would return
  the first entry.
\<close>

theorem C3_counterexample:
  "\<not> isl (listDirectory demo_host ''/abc'' 1 0 False ByName Asc)
   \<and> pg_limit (lr_pagination (projr (listDirectory demo_host ''/abc'' 1 0 False ByName Asc))) = 0
   \<and> pg_totalPages (lr_pagination (projr (listDirectory demo_host ''/abc'' 1 0 False ByName Asc)))
       = Infinity
   \<and> lr_items (projr (listDirectory demo_host ''/abc'' 1 0 False ByName Asc)) = []
   \<and> lr_items (projr (listDirectory demo_host ''/abc'' 1 (clampLimit 0) False ByName Asc))
       = [abc_file ''a'' 1]"
  unfolding abc_unclamped
  by (simp add: buildResponse_def Let_def ceilDiv_def js_slice_def clampLimit_def)

text \<open>
  C3, amended. The listing service uses the limit as it receives it: a successful call
  reports that limit, slices from (page - 1) * limit to (page - 1) * limit + limit and
  counts pages with it. The range 1..1000 is enforced by the controller: a request whose
  limit lies outside it is answered with a validation failure, and a request that is
  served used the limit given, or 100 when none was given, which lies in 1..1000.
\<close>

theorem C3_limit_validated_not_clamped:
  "(\<forall>r. listDirectory h dirPath page limit includeHidden sortBy sortOrder = Inr r \<longrightarrow>
       pg_limit (lr_pagination r) = limit
       \<and> (\<exists>fileNames. listable h dirPath fileNames
            \<and> lr_items r
                = js_slice (allItems h (resolve h dirPath) includeHidden sortBy sortOrder fileNames)
                    ((page - 1) * limit) ((page - 1) * limit + limit)
            \<and> pg_totalPages (lr_pagination r)
                = ceilDiv
                    (length (allItems h (resolve h dirPath) includeHidden sortBy sortOrder
                       fileNames))
                    limit))
   \<and> (\<forall>l. q_limit q = Given l \<longrightarrow> \<not> limitInRange l \<longrightarrow>
         listDirectoryController h q = ValidationFailed)
   \<and> (\<forall>r. listDirectoryController h q = Success r \<longrightarrow>
         pg_limit (lr_pagination r) = withDefault 100 (q_limit q)
         \<and> limitInRange (pg_limit (lr_pagination r)))"
proof (intro conjI allI impI)
  fix r
  assume r: "listDirectory h dirPath page limit includeHidden sortBy sortOrder = Inr r"
  show "pg_limit (lr_pagination r) = limit"
    by (rule listDirectory_Inr_limit [OF r])
  obtain ns where ns: "listable h dirPath ns"
    using listDirectory_Inr_listable [OF r] by auto
  let ?all = "allItems h (resolve h dirPath) includeHidden sortBy sortOrder ns"
  from listDirectory_listable [OF ns, of page limit includeHidden sortBy sortOrder] r
  have "r = buildResponse h (resolve h dirPath) page limit ?all" by simp
  then have "lr_items r = js_slice ?all ((page - 1) * limit) ((page - 1) * limit + limit)"
    and "pg_totalPages (lr_pagination r) = ceilDiv (length ?all) limit"
    by (simp_all add: buildResponse_def Let_def)
  with ns show "\<exists>fileNames. listable h dirPath fileNames
            \<and> lr_items r
                = js_slice (allItems h (resolve h dirPath) includeHidden sortBy sortOrder fileNames)
                    ((page - 1) * limit) ((page - 1) * limit + limit)
            \<and> pg_totalPages (lr_pagination r)
                = ceilDiv
                    (length (allItems h (resolve h dirPath) includeHidden sortBy sortOrder
                       fileNames))
                    limit"
    by blast
next
  fix l
  assume "q_limit q = Given l" and "\<not> limitInRange l"
  then show "listDirectoryController h q = ValidationFailed"
    by (rule controller_rejects)
next
  fix r
  assume s: "listDirectoryController h q = Success r"
  from controller_Success(2) [OF s] listDirectory_Inr_limit
  show "pg_limit (lr_pagination r) = withDefault 100 (q_limit q)" by blast
  then show "limitInRange (pg_limit (lr_pagination r))"
    using validated_limit [OF controller_Success(1) [OF s]] by simp
qed

theorem C3_limit_validated_not_clamped_witness:
  "(\<exists>r. listDirectory demo_host ''/abc'' 1 0 False ByName Asc = Inr r
        \<and> pg_limit (lr_pagination r) = 0)
   \<and> q_limit (abc_query (Given 5000)) = Given 5000 \<and> \<not> limitInRange 5000
   \<and> listDirectoryController demo_host (abc_query (Given 5000)) = ValidationFailed
   \<and> (\<exists>r. listDirectoryController demo_host (abc_query Absent) = Success r
        \<and> pg_limit (lr_pagination r) = 100)"
proof -
  note c3 = C3_limit_validated_not_clamped [where h = demo_host and dirPath = "''/abc''"
      and page = 1 and limit = 0 and includeHidden = False and sortBy = ByName
      and sortOrder = Asc]
  have a: "\<exists>r. listDirectory demo_host ''/abc'' 1 0 False ByName Asc = Inr r
        \<and> pg_limit (lr_pagination r) = 0"
    using c3 [of "abc_query Absent"] abc_unclamped [of 0] by blast
  have q: "q_limit (abc_query (Given 5000)) = Given 5000" and o: "\<not> limitInRange 5000"
    by (simp_all add: abc_query_def limitInRange_def)
  have b: "listDirectoryController demo_host (abc_query (Given 5000)) = ValidationFailed"
    using c3 [of "abc_query (Given 5000)"] q o by blast
  have "listDirectoryController demo_host (abc_query Absent)
      = Success (buildResponse demo_host ''/abc'' 1 100
          [abc_file ''a'' 1, abc_file ''b'' 2, abc_file ''c'' 3])"
    by (simp add: listDirectoryController_def validateDirectoryListing_def abc_query_def
        abc_unclamped)
  then have c: "\<exists>r. listDirectoryController demo_host (abc_query Absent) = Success r
        \<and> pg_limit (lr_pagination r) = 100"
    using c3 [of "abc_query Absent"] by (simp add: abc_query_def)
  from a q o b c show ?thesis by blast
qed

text \<open>
  C4. The aggregates of a listing are those of the whole filtered entry set
  (\<open>collectItems\<close>), whatever page and page size were asked for: the total is its length,
  the file count and the directory count add up to the total, and the total size is the
  sum of the sizes of exactly its entries of kind file.
\<close>

theorem C4_aggregates:
  assumes "listable h dirPath fileNames"
  shows "\<exists>r. listDirectory h dirPath page limit includeHidden sortBy sortOrder = Inr r
    \<and> pg_total (lr_pagination r)
        = length (collectItems h (resolve h dirPath) includeHidden fileNames)
    \<and> totalFiles (lr_metadata r) + totalDirectories (lr_metadata r)
        = length (collectItems h (resolve h dirPath) includeHidden fileNames)
    \<and> totalFiles (lr_metadata r)
        = length (filter (\<lambda>item. fi_type item = File)
            (collectItems h (resolve h dirPath) includeHidden fileNames))
    \<and> totalDirectories (lr_metadata r)
        = length (filter (\<lambda>item. fi_type item = Directory)
            (collectItems h (resolve h dirPath) includeHidden fileNames))
    \<and> totalSize (lr_metadata r)
        = sum_list (map fi_size (filter (\<lambda>item. fi_type item = File)
            (collectItems h (resolve h dirPath) includeHidden fileNames)))"
proof -
  let ?c = "collectItems h (resolve h dirPath) includeHidden fileNames"
  let ?r = "buildResponse h (resolve h dirPath) page limit
              (allItems h (resolve h dirPath) includeHidden sortBy sortOrder fileNames)"
  have call: "listDirectory h dirPath page limit includeHidden sortBy sortOrder = Inr ?r"
    by (rule listDirectory_listable [OF assms])
  have tot: "pg_total (lr_pagination ?r) = length ?c"
    by (simp add: buildResponse_def Let_def allItems_def length_js_sort)
  have files: "totalFiles (lr_metadata ?r) = length (filter (\<lambda>item. fi_type item = File) ?c)"
    by (simp add: buildResponse_def Let_def allItems_def length_filter_js_sort)
  have dirs: "totalDirectories (lr_metadata ?r)
      = length (filter (\<lambda>item. fi_type item = Directory) ?c)"
    by (simp add: buildResponse_def Let_def allItems_def length_filter_js_sort)
  have bytes: "totalSize (lr_metadata ?r)
      = sum_list (map fi_size (filter (\<lambda>item. fi_type item = File) ?c))"
    by (simp add: buildResponse_def Let_def allItems_def foldl_sizes sum_filter_js_sort)
  have both: "totalFiles (lr_metadata ?r) + totalDirectories (lr_metadata ?r) = length ?c"
    unfolding files dirs by (rule type_partition)
  show ?thesis
    by (intro exI [of _ ?r] conjI call tot both files dirs bytes)
qed

theorem C4_aggregates_witness:
  "listable demo_host ''/data'' data_names
   \<and> (\<exists>r. listDirectory demo_host ''/data'' 1 2 False ByName Asc = Inr r
        \<and> length (lr_items r) = 2
        \<and> pg_total (lr_pagination r) = 5
        \<and> totalFiles (lr_metadata r) = 4
        \<and> totalDirectories (lr_metadata r) = 1
        \<and> totalSize (lr_metadata r) = 25)"
proof -
  have l: "listable demo_host ''/data'' data_names" by (rule listable_data)
  obtain r where r: "listDirectory demo_host ''/data'' 1 2 False ByName Asc = Inr r"
    and c: "pg_total (lr_pagination r)
        = length (collectItems demo_host (resolve demo_host ''/data'') False data_names)"
      "totalFiles (lr_metadata r) = length (filter (\<lambda>item. fi_type item = File)
          (collectItems demo_host (resolve demo_host ''/data'') False data_names))"
      "totalDirectories (lr_metadata r) = length (filter (\<lambda>item. fi_type item = Directory)
          (collectItems demo_host (resolve demo_host ''/data'') False data_names))"
      "totalSize (lr_metadata r) = sum_list (map fi_size (filter (\<lambda>item. fi_type item = File)
          (collectItems demo_host (resolve demo_host ''/data'') False data_names)))"
    using C4_aggregates [OF l, of 1 2 False ByName Asc] by auto
  have "r = buildResponse demo_host ''/data'' 1 2
          (allItems demo_host ''/data'' False ByName Asc data_names)"
    using r by (simp add: listDirectory_listable [OF l] resolve_data)
  then have n: "length (lr_items r) = 2"
    by (simp add: buildResponse_items allItems_def length_js_sort collect_data)
  have "pg_total (lr_pagination r) = 5"
    unfolding c resolve_data collect_data by simp
  moreover have "totalFiles (lr_metadata r) = 4"
    unfolding c resolve_data collect_data by (simp add: data_info_def)
  moreover have "totalDirectories (lr_metadata r) = 1"
    unfolding c resolve_data collect_data by (simp add: data_info_def)
  moreover have "totalSize (lr_metadata r) = 25"
    unfolding c resolve_data collect_data by (simp add: data_info_def)
  ultimately show ?thesis using l r n by simp
qed

text \<open>
  C5. For a listable directory, a page number of at least 1 and a page size in 1..1000, the
  call succeeds and returns the slice of the sorted filtered list that starts at index
  (page - 1) * limit and holds at most limit entries; it is empty, not an error, when that
  index is at or beyond the end. The page count is the ceiling of total / limit (0 for an
  empty list), \<open>hasNext\<close> says page < page count and \<open>hasPrevious\<close> says page > 1. The
  instance below is the scenario limit = 1, page = 2 on the entries a, b, c.
\<close>

theorem C5_pagination:
  assumes "listable h dirPath fileNames" and "1 \<le> page" and "limitInRange limit"
  shows "\<exists>r. listDirectory h dirPath page limit includeHidden sortBy sortOrder = Inr r
    \<and> lr_items r = take (nat limit) (drop (nat ((page - 1) * limit))
        (allItems h (resolve h dirPath) includeHidden sortBy sortOrder fileNames))
    \<and> (int (length (allItems h (resolve h dirPath) includeHidden sortBy sortOrder fileNames))
          \<le> (page - 1) * limit \<longrightarrow> lr_items r = [])
    \<and> pg_total (lr_pagination r)
        = length (allItems h (resolve h dirPath) includeHidden sortBy sortOrder fileNames)
    \<and> pg_totalPages (lr_pagination r)
        = Finite \<lceil>real (pg_total (lr_pagination r)) / real_of_int limit\<rceil>
    \<and> (pg_total (lr_pagination r) = 0 \<longrightarrow> pg_totalPages (lr_pagination r) = Finite 0)
    \<and> pg_hasNext (lr_pagination r)
        = (page < \<lceil>real (pg_total (lr_pagination r)) / real_of_int limit\<rceil>)
    \<and> pg_hasPrevious (lr_pagination r) = (1 < page)"
proof -
  let ?all = "allItems h (resolve h dirPath) includeHidden sortBy sortOrder fileNames"
  let ?r = "buildResponse h (resolve h dirPath) page limit ?all"
  have lim: "1 \<le> limit" "0 \<le> limit" "limit \<noteq> 0"
    using assms(3) by (simp_all add: limitInRange_def)
  have call: "listDirectory h dirPath page limit includeHidden sortBy sortOrder = Inr ?r"
    by (rule listDirectory_listable [OF assms(1)])
  have items: "lr_items ?r = take (nat limit) (drop (nat ((page - 1) * limit)) ?all)"
    by (rule buildResponse_items [OF assms(2) lim(2)])
  have beyond: "int (length ?all) \<le> (page - 1) * limit \<longrightarrow> lr_items ?r = []"
    unfolding items by simp
  have tot: "pg_total (lr_pagination ?r) = length ?all"
    by (simp add: buildResponse_def Let_def)
  have tp: "pg_totalPages (lr_pagination ?r)
      = Finite \<lceil>real (pg_total (lr_pagination ?r)) / real_of_int limit\<rceil>"
    unfolding tot using ceilDiv_ceiling [OF lim(3)] by (simp add: buildResponse_def Let_def)
  have zero: "pg_total (lr_pagination ?r) = 0 \<longrightarrow> pg_totalPages (lr_pagination ?r) = Finite 0"
    using tp by simp
  have nxt: "pg_hasNext (lr_pagination ?r)
      = (page < \<lceil>real (pg_total (lr_pagination ?r)) / real_of_int limit\<rceil>)"
    unfolding tot using ceilDiv_ceiling [OF lim(3)] by (simp add: buildResponse_def Let_def)
  have prv: "pg_hasPrevious (lr_pagination ?r) = (1 < page)"
    by (simp add: buildResponse_def Let_def)
  show ?thesis
    by (intro exI [of _ ?r] conjI call items beyond tot tp zero nxt prv)
qed

theorem C5_pagination_witness:
  "listable demo_host ''/abc'' [''b'', ''c'', ''a''] \<and> (1::int) \<le> 2 \<and> limitInRange 1
   \<and> (\<exists>r. listDirectory demo_host ''/abc'' 2 1 False ByName Asc = Inr r
        \<and> lr_items r = [abc_file ''b'' 2]
        \<and> pg_totalPages (lr_pagination r) = Finite 3
        \<and> pg_hasNext (lr_pagination r)
        \<and> pg_hasPrevious (lr_pagination r))
   \<and> (1::int) \<le> 5
   \<and> int (length (allItems demo_host (resolve demo_host ''/abc'') False ByName Asc
          [''b'', ''c'', ''a''])) \<le> (5 - 1) * 1
   \<and> (\<exists>r. listDirectory demo_host ''/abc'' 5 1 False ByName Asc = Inr r
        \<and> lr_items r = [] \<and> \<not> pg_hasNext (lr_pagination r))
   \<and> listable demo_host ''/empty'' []
   \<and> (\<exists>r. listDirectory demo_host ''/empty'' 1 1 False ByName Asc = Inr r
        \<and> pg_total (lr_pagination r) = 0
        \<and> pg_totalPages (lr_pagination r) = Finite 0)"
proof -
  have l: "listable demo_host ''/abc'' [''b'', ''c'', ''a'']" by (rule listable_abc)
  have p: "(1::int) \<le> 2" and p5: "(1::int) \<le> 5" by simp_all
  have i: "limitInRange 1" by (simp add: limitInRange_def)
  obtain r where r: "listDirectory demo_host ''/abc'' 2 1 False ByName Asc = Inr r"
    and items: "lr_items r = take (nat 1) (drop (nat ((2 - 1) * 1))
        (allItems demo_host (resolve demo_host ''/abc'') False ByName Asc [''b'', ''c'', ''a'']))"
    and tot: "pg_total (lr_pagination r)
        = length (allItems demo_host (resolve demo_host ''/abc'') False ByName Asc
            [''b'', ''c'', ''a''])"
    and tp: "pg_totalPages (lr_pagination r)
        = Finite \<lceil>real (pg_total (lr_pagination r)) / real_of_int 1\<rceil>"
    and nxt: "pg_hasNext (lr_pagination r)
        = (2 < \<lceil>real (pg_total (lr_pagination r)) / real_of_int 1\<rceil>)"
    and prv: "pg_hasPrevious (lr_pagination r) = ((1::int) < 2)"
    using C5_pagination [OF l p i, of False ByName Asc] by auto
  have t3: "pg_total (lr_pagination r) = 3"
    unfolding tot resolve_abc all_abc by simp
  have "lr_items r = [abc_file ''b'' 2]"
    unfolding items resolve_abc all_abc by simp
  moreover have "pg_totalPages (lr_pagination r) = Finite 3"
    unfolding tp t3 by simp
  moreover have "pg_hasNext (lr_pagination r)"
    unfolding nxt t3 by simp
  moreover have "pg_hasPrevious (lr_pagination r)"
    unfolding prv by simp
  ultimately have second: "\<exists>r. listDirectory demo_host ''/abc'' 2 1 False ByName Asc = Inr r
        \<and> lr_items r = [abc_file ''b'' 2]
        \<and> pg_totalPages (lr_pagination r) = Finite 3
        \<and> pg_hasNext (lr_pagination r)
        \<and> pg_hasPrevious (lr_pagination r)"
    using r by simp
  have far: "int (length (allItems demo_host (resolve demo_host ''/abc'') False ByName Asc
          [''b'', ''c'', ''a''])) \<le> (5 - 1) * 1"
    by (simp add: resolve_abc all_abc)
  obtain r5 where r5: "listDirectory demo_host ''/abc'' 5 1 False ByName Asc = Inr r5"
    and none: "int (length (allItems demo_host (resolve demo_host ''/abc'') False ByName Asc
          [''b'', ''c'', ''a''])) \<le> (5 - 1) * 1 \<longrightarrow> lr_items r5 = []"
    and tot5: "pg_total (lr_pagination r5)
        = length (allItems demo_host (resolve demo_host ''/abc'') False ByName Asc
            [''b'', ''c'', ''a''])"
    and nxt5: "pg_hasNext (lr_pagination r5)
        = (5 < \<lceil>real (pg_total (lr_pagination r5)) / real_of_int 1\<rceil>)"
    using C5_pagination [OF l p5 i, of False ByName Asc] by auto
  have "pg_total (lr_pagination r5) = 3"
    unfolding tot5 resolve_abc all_abc by simp
  then have "\<not> pg_hasNext (lr_pagination r5)"
    unfolding nxt5 by simp
  with r5 none far have fifth: "\<exists>r. listDirectory demo_host ''/abc'' 5 1 False ByName Asc = Inr r
        \<and> lr_items r = [] \<and> \<not> pg_hasNext (lr_pagination r)"
    by simp
  have e: "listable demo_host ''/empty'' []" by (rule listable_empty)
  obtain r0 where r0: "listDirectory demo_host ''/empty'' 1 1 False ByName Asc = Inr r0"
    and tot0: "pg_total (lr_pagination r0)
        = length (allItems demo_host (resolve demo_host ''/empty'') False ByName Asc [])"
    and zero: "pg_total (lr_pagination r0) = 0 \<longrightarrow> pg_totalPages (lr_pagination r0) = Finite 0"
    using C5_pagination [OF e _ i, of 1 False ByName Asc] by auto
  have "pg_total (lr_pagination r0) = 0"
    unfolding tot0 by (simp add: all_empty)
  with r0 zero have empty: "\<exists>r. listDirectory demo_host ''/empty'' 1 1 False ByName Asc = Inr r
        \<and> pg_total (lr_pagination r) = 0
        \<and> pg_totalPages (lr_pagination r) = Finite 0"
    by simp
  from l p i second p5 far fifth e empty show ?thesis by blast
qed

text \<open>
  C6. On a listable directory the call succeeds whatever children cannot be resolved, and
  its result is over the remaining entries: the total is the number of children whose
  \<open>stat\<close> succeeds (and that pass the hidden filter), the returned items are the requested
  slice of the sorted list of exactly those children, so that the first page of a page
  size that holds the whole listing returns each of them once, and no returned item is an
  unresolvable child. The result is the very result of the host whose listing lacks the
  unresolvable children, so nothing in it tells how many were omitted.
\<close>

theorem C6_unresolvable_child_dropped:
  assumes "listable h dirPath fileNames"
  shows "\<exists>r. listDirectory h dirPath page limit includeHidden sortBy sortOrder = Inr r
    \<and> pg_total (lr_pagination r)
        = length (filter (\<lambda>n. resolvable h (resolve h dirPath) n
                       \<and> (includeHidden \<or> \<not> isHiddenName h n)) fileNames)
    \<and> lr_items r
        = js_slice (allItems h (resolve h dirPath) includeHidden sortBy sortOrder fileNames)
            ((page - 1) * limit) ((page - 1) * limit + limit)
    \<and> mset (map fi_name (allItems h (resolve h dirPath) includeHidden sortBy sortOrder fileNames))
        = mset (filter (\<lambda>n. resolvable h (resolve h dirPath) n
                       \<and> (includeHidden \<or> \<not> isHiddenName h n)) fileNames)
    \<and> (page = 1 \<and> int (length fileNames) \<le> limit
         \<longrightarrow> mset (map fi_name (lr_items r))
             = mset (filter (\<lambda>n. resolvable h (resolve h dirPath) n
                       \<and> (includeHidden \<or> \<not> isHiddenName h n)) fileNames))
    \<and> (\<forall>item \<in> set (lr_items r).
          fi_name item \<in> set fileNames \<and> resolvable h (resolve h dirPath) (fi_name item))
    \<and> map fi_name (collectItems h (resolve h dirPath) includeHidden fileNames)
        = filter (\<lambda>n. resolvable h (resolve h dirPath) n
                       \<and> (includeHidden \<or> \<not> isHiddenName h n)) fileNames
    \<and> mset (allItems h (resolve h dirPath) includeHidden sortBy sortOrder fileNames)
        = mset (collectItems h (resolve h dirPath) includeHidden fileNames)
    \<and> listDirectory
          (withListing h (resolve h dirPath) (filter (resolvable h (resolve h dirPath)) fileNames))
          dirPath page limit includeHidden sortBy sortOrder = Inr r"
proof -
  let ?np = "resolve h dirPath"
  let ?kept = "filter (resolvable h ?np) fileNames"
  let ?all = "allItems h ?np includeHidden sortBy sortOrder fileNames"
  let ?r = "buildResponse h ?np page limit ?all"
  have call: "listDirectory h dirPath page limit includeHidden sortBy sortOrder = Inr ?r"
    by (rule listDirectory_listable [OF assms])
  have tot: "pg_total (lr_pagination ?r)
      = length (filter (\<lambda>n. resolvable h ?np n \<and> (includeHidden \<or> \<not> isHiddenName h n))
          fileNames)"
    by (simp add: buildResponse_page length_allItems)
  have items: "lr_items ?r = js_slice ?all ((page - 1) * limit) ((page - 1) * limit + limit)"
    by (rule buildResponse_page)
  have sorted_names: "mset (map fi_name ?all)
      = mset (filter (\<lambda>n. resolvable h ?np n \<and> (includeHidden \<or> \<not> isHiddenName h n))
          fileNames)"
    by (rule names_allItems)
  have whole: "page = 1 \<and> int (length fileNames) \<le> limit
      \<longrightarrow> mset (map fi_name (lr_items ?r))
          = mset (filter (\<lambda>n. resolvable h ?np n \<and> (includeHidden \<or> \<not> isHiddenName h n))
              fileNames)"
    by (rule impI) (rule first_page_names)
  have present: "\<forall>item \<in> set (lr_items ?r).
      fi_name item \<in> set fileNames \<and> resolvable h ?np (fi_name item)"
  proof
    fix item
    assume "item \<in> set (lr_items ?r)"
    then obtain n where n: "n \<in> set fileNames" "listEntry h ?np includeHidden n = Some item"
      using page_entry by blast
    from n(2) have "resolvable h ?np n"
      using listEntry_Some_iff [of h ?np includeHidden n] by blast
    with n listEntry_Some(1) [OF n(2)]
    show "fi_name item \<in> set fileNames \<and> resolvable h ?np (fi_name item)" by simp
  qed
  have names: "map fi_name (collectItems h ?np includeHidden fileNames)
      = filter (\<lambda>n. resolvable h ?np n \<and> (includeHidden \<or> \<not> isHiddenName h n)) fileNames"
    by (rule names_collectItems)
  have perm: "mset ?all = mset (collectItems h ?np includeHidden fileNames)"
    by (simp add: allItems_def mset_js_sort)
  have same: "allItems h ?np includeHidden sortBy sortOrder ?kept = ?all"
    by (simp add: allItems_def collectItems_resolvable)
  have "listDirectory (withListing h ?np ?kept) dirPath page limit includeHidden sortBy sortOrder
      = Inr (buildResponse (withListing h ?np ?kept) (resolve (withListing h ?np ?kept) dirPath)
          page limit
          (allItems (withListing h ?np ?kept) (resolve (withListing h ?np ?kept) dirPath)
             includeHidden sortBy sortOrder ?kept))"
    by (rule listDirectory_listable [OF listable_withListing [OF assms]])
  then have pruned:
    "listDirectory (withListing h ?np ?kept) dirPath page limit includeHidden sortBy sortOrder
      = Inr ?r"
    by (simp add: withListing_simps same)
  show ?thesis
    by (intro exI [of _ ?r] conjI call tot items sorted_names whole present names perm pruned)
qed

theorem C6_unresolvable_child_dropped_witness:
  "listable demo_host ''/data'' data_names
   \<and> ''ghost'' \<in> set data_names
   \<and> \<not> resolvable demo_host (resolve demo_host ''/data'') ''ghost''
   \<and> (1::int) = 1 \<and> int (length data_names) \<le> 10
   \<and> (\<exists>r. listDirectory demo_host ''/data'' 1 10 True ByName Asc = Inr r
        \<and> pg_total (lr_pagination r) = 6
        \<and> mset (map fi_name (lr_items r))
            = mset [''c.txt'', ''a.txt'', ''.hidden'', ''sub'', ''locked'', ''b.txt''])
   \<and> map fi_name (collectItems demo_host (resolve demo_host ''/data'') True data_names)
       = [''c.txt'', ''a.txt'', ''.hidden'', ''sub'', ''locked'', ''b.txt'']"
proof -
  have l: "listable demo_host ''/data'' data_names" by (rule listable_data)
  have g: "''ghost'' \<in> set data_names" by (simp add: data_names_def)
  have u: "\<not> resolvable demo_host (resolve demo_host ''/data'') ''ghost''"
    unfolding resolve_data by (rule ghost_unresolvable)
  have fits: "(1::int) = 1 \<and> int (length data_names) \<le> 10"
    by (simp add: data_names_def)
  have kept: "filter (\<lambda>n. resolvable demo_host (resolve demo_host ''/data'') n
                       \<and> (True \<or> \<not> isHiddenName demo_host n)) data_names
      = [''c.txt'', ''a.txt'', ''.hidden'', ''sub'', ''locked'', ''b.txt'']"
    using kept_data by (simp add: resolve_data)
  obtain r where r: "listDirectory demo_host ''/data'' 1 10 True ByName Asc = Inr r"
    and tot: "pg_total (lr_pagination r)
        = length (filter (\<lambda>n. resolvable demo_host (resolve demo_host ''/data'') n
                       \<and> (True \<or> \<not> isHiddenName demo_host n)) data_names)"
    and whole: "(1::int) = 1 \<and> int (length data_names) \<le> 10
         \<longrightarrow> mset (map fi_name (lr_items r))
             = mset (filter (\<lambda>n. resolvable demo_host (resolve demo_host ''/data'') n
                       \<and> (True \<or> \<not> isHiddenName demo_host n)) data_names)"
    and names: "map fi_name (collectItems demo_host (resolve demo_host ''/data'') True data_names)
        = filter (\<lambda>n. resolvable demo_host (resolve demo_host ''/data'') n
                       \<and> (True \<or> \<not> isHiddenName demo_host n)) data_names"
    using C6_unresolvable_child_dropped [OF l, where page = 1 and limit = 10
        and includeHidden = True and sortBy = ByName and sortOrder = Asc]
    by auto
  have t6: "pg_total (lr_pagination r) = 6"
    unfolding tot kept by simp
  have page: "mset (map fi_name (lr_items r))
      = mset [''c.txt'', ''a.txt'', ''.hidden'', ''sub'', ''locked'', ''b.txt'']"
    using whole fits unfolding kept by blast
  have listed: "map fi_name (collectItems demo_host (resolve demo_host ''/data'') True data_names)
       = [''c.txt'', ''a.txt'', ''.hidden'', ''sub'', ''locked'', ''b.txt'']"
    unfolding names kept ..
  from l g u fits r t6 page listed show ?thesis by blast
qed

text \<open>
  C7. When Path Guard fails with \<open>NotFound\<close>, \<open>getDirectoryMetadata\<close> returns a
  descriptor with \<open>exists = false\<close>, \<open>isDirectory = false\<close>, the three permission flags
  false, both totals 0 and empty timestamps; when Path Guard fails with \<open>PathTraversal\<close>,
  \<open>AccessDenied\<close> or \<open>InvalidInput\<close>, it fails with that same error.
\<close>

theorem C7_probe_soft_success:
  "(validatePath h dirPath = Inl NotFound \<longrightarrow>
      (\<exists>m. getDirectoryMetadata h dirPath = Inr m
         \<and> dm_path m = resolve h dirPath
         \<and> \<not> dm_exists m \<and> \<not> dm_isDirectory m
         \<and> \<not> pt_readable (dm_permissions m)
         \<and> \<not> pt_writable (dm_permissions m)
         \<and> \<not> pt_executable (dm_permissions m)
         \<and> dm_totalItems m = 0 \<and> dm_totalSize m = 0
         \<and> dm_lastAccessed m = [] \<and> dm_lastModified m = [] \<and> dm_created m = []))
   \<and> (\<forall>e \<in> {PathTraversal, AccessDenied, InvalidInput}.
         validatePath h dirPath = Inl e \<longrightarrow> getDirectoryMetadata h dirPath = Inl e)"
proof (intro conjI impI ballI)
  assume "validatePath h dirPath = Inl NotFound"
  then have "getDirectoryMetadata h dirPath = Inr (notFoundMetadata (resolve h dirPath))"
    by (simp add: getDirectoryMetadata_guard_error)
  then show "\<exists>m. getDirectoryMetadata h dirPath = Inr m
         \<and> dm_path m = resolve h dirPath
         \<and> \<not> dm_exists m \<and> \<not> dm_isDirectory m
         \<and> \<not> pt_readable (dm_permissions m)
         \<and> \<not> pt_writable (dm_permissions m)
         \<and> \<not> pt_executable (dm_permissions m)
         \<and> dm_totalItems m = 0 \<and> dm_totalSize m = 0
         \<and> dm_lastAccessed m = [] \<and> dm_lastModified m = [] \<and> dm_created m = []"
    by (simp add: notFoundMetadata_def)
next
  fix e
  assume "e \<in> {PathTraversal, AccessDenied, InvalidInput}"
    and "validatePath h dirPath = Inl e"
  then show "getDirectoryMetadata h dirPath = Inl e"
    by (auto simp: getDirectoryMetadata_guard_error)
qed

theorem C7_probe_soft_success_witness:
  "validatePath demo_host ''/missing'' = Inl NotFound
   \<and> getDirectoryMetadata demo_host ''/missing'' = Inr (notFoundMetadata ''/missing'')
   \<and> validatePath demo_host ''a/../../etc'' = Inl PathTraversal
   \<and> getDirectoryMetadata demo_host ''a/../../etc'' = Inl PathTraversal
   \<and> validatePath demo_host ''/etc/passwd'' = Inl AccessDenied
   \<and> getDirectoryMetadata demo_host ''/etc/passwd'' = Inl AccessDenied
   \<and> validatePath demo_host [] = Inl InvalidInput
   \<and> getDirectoryMetadata demo_host [] = Inl InvalidInput"
proof -
  obtain m where m: "getDirectoryMetadata demo_host ''/missing'' = Inr m"
    and fields: "dm_path m = resolve demo_host ''/missing''" "\<not> dm_exists m"
      "\<not> dm_isDirectory m" "\<not> pt_readable (dm_permissions m)"
      "\<not> pt_writable (dm_permissions m)" "\<not> pt_executable (dm_permissions m)"
      "dm_totalItems m = 0" "dm_totalSize m = 0"
      "dm_lastAccessed m = []" "dm_lastModified m = []" "dm_created m = []"
    using C7_probe_soft_success [of demo_host "''/missing''"] guard_missing by auto
  have "resolve demo_host ''/missing'' = ''/missing''"
    by (simp add: demo_host_def demo_path_defs)
  with fields have "m = notFoundMetadata ''/missing''"
    by (cases m, cases "dm_permissions m") (simp add: notFoundMetadata_def)
  with m have soft: "getDirectoryMetadata demo_host ''/missing'' = Inr (notFoundMetadata ''/missing'')"
    by simp
  have t: "getDirectoryMetadata demo_host ''a/../../etc'' = Inl PathTraversal"
    using C7_probe_soft_success [of demo_host "''a/../../etc''"] guard_traversal by simp
  have a: "getDirectoryMetadata demo_host ''/etc/passwd'' = Inl AccessDenied"
    using C7_probe_soft_success [of demo_host "''/etc/passwd''"] guard_restricted by simp
  have i: "getDirectoryMetadata demo_host [] = Inl InvalidInput"
    using C7_probe_soft_success [of demo_host "[]"] guard_empty by simp
  from soft t a i guard_missing guard_traversal guard_restricted guard_empty
  show ?thesis by simp
qed

text \<open>
  C8, as stated, fails: two listing calls on the sample host with the same parameters,
  between which only the clock advances by a millisecond, both succeed and return
  different values.
\<close>

theorem C8_counterexample:
  "\<not> isl (listDirectory (demo_host\<lparr>now := ''2025-01-01T00:00:00.000Z''\<rparr>) ''/abc'' 1 10 False
          ByName Asc)
   \<and> listDirectory (demo_host\<lparr>now := ''2025-01-01T00:00:00.000Z''\<rparr>) ''/abc'' 1 10 False
        ByName Asc
     \<noteq> listDirectory (demo_host\<lparr>now := ''2025-01-01T00:00:00.001Z''\<rparr>) ''/abc'' 1 10 False
        ByName Asc"
proof -
  have call: "listDirectory (demo_host\<lparr>now := t\<rparr>) ''/abc'' 1 10 False ByName Asc
      = Inr (buildResponse (demo_host\<lparr>now := t\<rparr>) (resolve (demo_host\<lparr>now := t\<rparr>) ''/abc'')
          1 10
          (allItems (demo_host\<lparr>now := t\<rparr>) (resolve (demo_host\<lparr>now := t\<rparr>) ''/abc'')
             False ByName Asc [''b'', ''c'', ''a'']))" for t
    by (rule listDirectory_listable) (simp add: listable_now listable_abc)
  have stamp: "scannedAt (lr_metadata (projr
      (listDirectory (demo_host\<lparr>now := t\<rparr>) ''/abc'' 1 10 False ByName Asc))) = t" for t
    unfolding call by (simp add: scannedAt_buildResponse)
  have "''2025-01-01T00:00:00.000Z'' \<noteq> ''2025-01-01T00:00:00.001Z''" by simp
  with stamp [of "''2025-01-01T00:00:00.000Z''"] stamp [of "''2025-01-01T00:00:00.001Z''"]
  have "listDirectory (demo_host\<lparr>now := ''2025-01-01T00:00:00.000Z''\<rparr>) ''/abc'' 1 10 False
        ByName Asc
     \<noteq> listDirectory (demo_host\<lparr>now := ''2025-01-01T00:00:00.001Z''\<rparr>) ''/abc'' 1 10 False
        ByName Asc"
    by metis
  moreover have "\<not> isl (listDirectory (demo_host\<lparr>now := ''2025-01-01T00:00:00.000Z''\<rparr>) ''/abc''
      1 10 False ByName Asc)"
    unfolding call by simp
  ultimately show ?thesis by simp
qed

text \<open>
  C8, amended. Two listing calls with identical parameters on hosts that differ in the
  clock only fail with the same error or both succeed, and then their results agree on
  the path, the items, the pagination summary and the file count, directory count and
  total size; the \<open>scannedAt\<close> field of each is the clock reading of its call.
\<close>

theorem C8_repeatable_up_to_scan_time:
  "(\<forall>e. listDirectory (h\<lparr>now := ta\<rparr>) dirPath page limit includeHidden sortBy sortOrder = Inl e
        \<longrightarrow> listDirectory (h\<lparr>now := tb\<rparr>) dirPath page limit includeHidden sortBy sortOrder
              = Inl e)
   \<and> (\<forall>first. listDirectory (h\<lparr>now := ta\<rparr>) dirPath page limit includeHidden sortBy sortOrder
            = Inr first
        \<longrightarrow> (\<exists>second. listDirectory (h\<lparr>now := tb\<rparr>) dirPath page limit includeHidden sortBy
                      sortOrder = Inr second
               \<and> lr_path second = lr_path first
               \<and> lr_items second = lr_items first
               \<and> lr_pagination second = lr_pagination first
               \<and> totalFiles (lr_metadata second) = totalFiles (lr_metadata first)
               \<and> totalDirectories (lr_metadata second) = totalDirectories (lr_metadata first)
               \<and> totalSize (lr_metadata second) = totalSize (lr_metadata first)
               \<and> scannedAt (lr_metadata first) = ta
               \<and> scannedAt (lr_metadata second) = tb))"
proof (intro conjI allI impI)
  fix e
  assume "listDirectory (h\<lparr>now := ta\<rparr>) dirPath page limit includeHidden sortBy sortOrder = Inl e"
  from listDirectory_Inl_now [OF this, of tb]
  show "listDirectory (h\<lparr>now := tb\<rparr>) dirPath page limit includeHidden sortBy sortOrder = Inl e"
    by simp
next
  fix first
  assume first: "listDirectory (h\<lparr>now := ta\<rparr>) dirPath page limit includeHidden sortBy sortOrder
      = Inr first"
  then obtain ns where ns: "listable h dirPath ns"
    using listDirectory_Inr_listable [OF first] by (auto simp: listable_now)
  let ?b = "buildResponse h (resolve h dirPath) page limit
      (allItems h (resolve h dirPath) includeHidden sortBy sortOrder ns)"
  let ?at = "\<lambda>t. ?b\<lparr>lr_metadata := (lr_metadata ?b)\<lparr>scannedAt := t\<rparr>\<rparr>"
  have call: "listDirectory (h\<lparr>now := t\<rparr>) dirPath page limit includeHidden sortBy sortOrder
      = Inr (?at t)" for t
    using listDirectory_listable [of "h\<lparr>now := t\<rparr>" dirPath ns page limit includeHidden sortBy
        sortOrder] ns
    by (simp add: listable_now allItems_now buildResponse_now)
  from first call [of ta] have "first = ?at ta" by simp
  then show "\<exists>second. listDirectory (h\<lparr>now := tb\<rparr>) dirPath page limit includeHidden sortBy
                      sortOrder = Inr second
               \<and> lr_path second = lr_path first
               \<and> lr_items second = lr_items first
               \<and> lr_pagination second = lr_pagination first
               \<and> totalFiles (lr_metadata second) = totalFiles (lr_metadata first)
               \<and> totalDirectories (lr_metadata second) = totalDirectories (lr_metadata first)
               \<and> totalSize (lr_metadata second) = totalSize (lr_metadata first)
               \<and> scannedAt (lr_metadata first) = ta
               \<and> scannedAt (lr_metadata second) = tb"
    by (intro exI [of _ "?at tb"] conjI call) simp_all
qed

theorem C8_repeatable_up_to_scan_time_witness:
  "(\<exists>r1 r2.
      listDirectory (demo_host\<lparr>now := ''2025-01-01T00:00:00.000Z''\<rparr>) ''/abc'' 1 10 False
        ByName Asc = Inr r1
    \<and> listDirectory (demo_host\<lparr>now := ''2025-01-01T00:00:00.001Z''\<rparr>) ''/abc'' 1 10 False
        ByName Asc = Inr r2
    \<and> lr_items r2 = lr_items r1 \<and> lr_pagination r2 = lr_pagination r1
    \<and> totalSize (lr_metadata r2) = totalSize (lr_metadata r1)
    \<and> scannedAt (lr_metadata r1) = ''2025-01-01T00:00:00.000Z''
    \<and> scannedAt (lr_metadata r2) = ''2025-01-01T00:00:00.001Z'')
   \<and> listDirectory (demo_host\<lparr>now := ''2025-01-01T00:00:00.000Z''\<rparr>) ''/missing'' 1 10 False
        ByName Asc = Inl NotFound
   \<and> listDirectory (demo_host\<lparr>now := ''2025-01-01T00:00:00.001Z''\<rparr>) ''/missing'' 1 10 False
        ByName Asc = Inl NotFound"
proof -
  obtain r1 where r1: "listDirectory (demo_host\<lparr>now := ''2025-01-01T00:00:00.000Z''\<rparr>) ''/abc''
      1 10 False ByName Asc = Inr r1"
    using listDirectory_listable [of "demo_host\<lparr>now := ''2025-01-01T00:00:00.000Z''\<rparr>" "''/abc''"
        "[''b'', ''c'', ''a'']" 1 10 False ByName Asc]
    by (simp add: listable_now listable_abc)
  from C8_repeatable_up_to_scan_time [where h = demo_host and ta = "''2025-01-01T00:00:00.000Z''"
      and tb = "''2025-01-01T00:00:00.001Z''" and dirPath = "''/abc''" and page = 1
      and limit = 10 and includeHidden = False and sortBy = ByName and sortOrder = Asc] r1
  have ok: "\<exists>r1 r2.
      listDirectory (demo_host\<lparr>now := ''2025-01-01T00:00:00.000Z''\<rparr>) ''/abc'' 1 10 False
        ByName Asc = Inr r1
    \<and> listDirectory (demo_host\<lparr>now := ''2025-01-01T00:00:00.001Z''\<rparr>) ''/abc'' 1 10 False
        ByName Asc = Inr r2
    \<and> lr_items r2 = lr_items r1 \<and> lr_pagination r2 = lr_pagination r1
    \<and> totalSize (lr_metadata r2) = totalSize (lr_metadata r1)
    \<and> scannedAt (lr_metadata r1) = ''2025-01-01T00:00:00.000Z''
    \<and> scannedAt (lr_metadata r2) = ''2025-01-01T00:00:00.001Z''"
    by blast
  have "validatePath (demo_host\<lparr>now := ''2025-01-01T00:00:00.000Z''\<rparr>) ''/missing''
      = Inl NotFound"
    by (simp add: validatePath_now guard_missing)
  then have e1: "listDirectory (demo_host\<lparr>now := ''2025-01-01T00:00:00.000Z''\<rparr>) ''/missing''
      1 10 False ByName Asc = Inl NotFound"
    by (rule listDirectory_guard_error)
  from C8_repeatable_up_to_scan_time [where h = demo_host and ta = "''2025-01-01T00:00:00.000Z''"
      and tb = "''2025-01-01T00:00:00.001Z''" and dirPath = "''/missing''" and page = 1
      and limit = 10 and includeHidden = False and sortBy = ByName and sortOrder = Asc] e1
  have e2: "listDirectory (demo_host\<lparr>now := ''2025-01-01T00:00:00.001Z''\<rparr>) ''/missing''
      1 10 False ByName Asc = Inl NotFound"
    by blast
  from ok e1 e2 show ?thesis by blast
qed

text \<open>
  C9. Let the access probes answer anything at all, provided the read probe of the
  directory itself (made by Path Guard) succeeds. Then the listing call succeeds and its
  result is over the children whose \<open>stat\<close> succeeds (and that pass the hidden filter),
  whatever the probes say: their number is the total, the returned items are the
  requested slice of the sorted list of exactly those children, and the first page of a
  page size that holds the whole listing returns each of them once. Each permission flag
  of a returned item equals the answer of the corresponding probe on the item's path, and
  \<open>createFileInfo\<close> fails exactly when \<open>stat\<close> does.
\<close>

theorem C9_permission_probes:
  assumes "listable h dirPath fileNames" and "probes (normalize h dirPath) R_OK"
  shows "\<exists>r. listDirectory (h\<lparr>access := probes\<rparr>) dirPath page limit includeHidden sortBy sortOrder
          = Inr r
    \<and> pg_total (lr_pagination r)
        = length (filter (\<lambda>n. resolvable h (resolve h dirPath) n
                       \<and> (includeHidden \<or> \<not> isHiddenName h n)) fileNames)
    \<and> lr_items r
        = js_slice (allItems (h\<lparr>access := probes\<rparr>) (resolve h dirPath) includeHidden sortBy
                      sortOrder fileNames)
            ((page - 1) * limit) ((page - 1) * limit + limit)
    \<and> mset (map fi_name (allItems (h\<lparr>access := probes\<rparr>) (resolve h dirPath) includeHidden
                sortBy sortOrder fileNames))
        = mset (filter (\<lambda>n. resolvable h (resolve h dirPath) n
                       \<and> (includeHidden \<or> \<not> isHiddenName h n)) fileNames)
    \<and> (page = 1 \<and> int (length fileNames) \<le> limit
         \<longrightarrow> mset (map fi_name (lr_items r))
             = mset (filter (\<lambda>n. resolvable h (resolve h dirPath) n
                       \<and> (includeHidden \<or> \<not> isHiddenName h n)) fileNames))
    \<and> (\<forall>item \<in> set (lr_items r).
          readable (fi_permissions item) = probes (fi_path item) R_OK
          \<and> writable (fi_permissions item) = probes (fi_path item) W_OK
          \<and> executable (fi_permissions item) = probes (fi_path item) X_OK)
    \<and> map fi_name (collectItems (h\<lparr>access := probes\<rparr>) (resolve h dirPath) includeHidden fileNames)
        = filter (\<lambda>n. resolvable h (resolve h dirPath) n
                       \<and> (includeHidden \<or> \<not> isHiddenName h n)) fileNames
    \<and> (\<forall>item \<in> set (collectItems (h\<lparr>access := probes\<rparr>) (resolve h dirPath) includeHidden
                         fileNames).
          readable (fi_permissions item) = probes (fi_path item) R_OK
          \<and> writable (fi_permissions item) = probes (fi_path item) W_OK
          \<and> executable (fi_permissions item) = probes (fi_path item) X_OK)
    \<and> (\<forall>filePath fileName.
          createFileInfo (h\<lparr>access := probes\<rparr>) filePath fileName = None
            \<longleftrightarrow> stat h filePath = None)"
proof -
  let ?h = "h\<lparr>access := probes\<rparr>"
  let ?np = "resolve h dirPath"
  let ?all = "allItems ?h ?np includeHidden sortBy sortOrder fileNames"
  let ?r = "buildResponse ?h ?np page limit ?all"
  have l: "listable ?h dirPath fileNames"
    using assms by (rule listable_probes)
  have call: "listDirectory ?h dirPath page limit includeHidden sortBy sortOrder = Inr ?r"
    using listDirectory_listable [OF l, of page limit includeHidden sortBy sortOrder] by simp
  have tot: "pg_total (lr_pagination ?r)
      = length (filter (\<lambda>n. resolvable h ?np n \<and> (includeHidden \<or> \<not> isHiddenName h n))
          fileNames)"
    by (simp add: buildResponse_page length_allItems resolvable_probes isHiddenName_probes)
  have items: "lr_items ?r = js_slice ?all ((page - 1) * limit) ((page - 1) * limit + limit)"
    by (rule buildResponse_page)
  have sorted_names: "mset (map fi_name ?all)
      = mset (filter (\<lambda>n. resolvable h ?np n \<and> (includeHidden \<or> \<not> isHiddenName h n))
          fileNames)"
    using names_allItems [of ?h ?np includeHidden sortBy sortOrder fileNames]
    by (simp add: resolvable_probes isHiddenName_probes)
  have whole: "page = 1 \<and> int (length fileNames) \<le> limit
      \<longrightarrow> mset (map fi_name (lr_items ?r))
          = mset (filter (\<lambda>n. resolvable h ?np n \<and> (includeHidden \<or> \<not> isHiddenName h n))
              fileNames)"
  proof
    assume "page = 1 \<and> int (length fileNames) \<le> limit"
    from first_page_names [OF this, of ?h ?np ?h ?np includeHidden sortBy sortOrder]
    show "mset (map fi_name (lr_items ?r))
          = mset (filter (\<lambda>n. resolvable h ?np n \<and> (includeHidden \<or> \<not> isHiddenName h n))
              fileNames)"
      by (simp add: resolvable_probes isHiddenName_probes)
  qed
  have entry_flags: "readable (fi_permissions item) = probes (fi_path item) R_OK
          \<and> writable (fi_permissions item) = probes (fi_path item) W_OK
          \<and> executable (fi_permissions item) = probes (fi_path item) X_OK"
    if "listEntry ?h ?np includeHidden n = Some item" for n item
    using listEntry_Some(3,4,5) [OF that] by simp
  have page_flags: "\<forall>item \<in> set (lr_items ?r).
          readable (fi_permissions item) = probes (fi_path item) R_OK
          \<and> writable (fi_permissions item) = probes (fi_path item) W_OK
          \<and> executable (fi_permissions item) = probes (fi_path item) X_OK"
    using page_entry entry_flags by blast
  have names: "map fi_name (collectItems ?h ?np includeHidden fileNames)
      = filter (\<lambda>n. resolvable h ?np n \<and> (includeHidden \<or> \<not> isHiddenName h n)) fileNames"
    using names_collectItems [of ?h ?np includeHidden fileNames]
    by (simp add: resolvable_probes isHiddenName_probes)
  have flags: "\<forall>item \<in> set (collectItems ?h ?np includeHidden fileNames).
          readable (fi_permissions item) = probes (fi_path item) R_OK
          \<and> writable (fi_permissions item) = probes (fi_path item) W_OK
          \<and> executable (fi_permissions item) = probes (fi_path item) X_OK"
    using set_collectItems entry_flags by blast
  have only_stat: "\<forall>filePath fileName.
      createFileInfo ?h filePath fileName = None \<longleftrightarrow> stat h filePath = None"
    using createFileInfo_None [of ?h] by simp
  show ?thesis
    by (intro exI [of _ ?r] conjI call tot items sorted_names whole page_flags names flags
        only_stat)
qed

theorem C9_permission_probes_witness:
  "listable demo_host ''/data'' data_names
   \<and> deny_children (normalize demo_host ''/data'') R_OK
   \<and> (1::int) = 1 \<and> int (length data_names) \<le> 10
   \<and> (\<exists>r. listDirectory (demo_host\<lparr>access := deny_children\<rparr>) ''/data'' 1 10 True ByName Asc
          = Inr r
        \<and> pg_total (lr_pagination r) = 6
        \<and> mset (map fi_name (lr_items r))
            = mset [''c.txt'', ''a.txt'', ''.hidden'', ''sub'', ''locked'', ''b.txt'']
        \<and> map (\<lambda>item. readable (fi_permissions item) \<or> writable (fi_permissions item)
                        \<or> executable (fi_permissions item)) (lr_items r)
            = replicate 6 False)
   \<and> map fi_name (collectItems (demo_host\<lparr>access := deny_children\<rparr>)
         (resolve demo_host ''/data'') True data_names)
       = [''c.txt'', ''a.txt'', ''.hidden'', ''sub'', ''locked'', ''b.txt'']"
proof -
  let ?h = "demo_host\<lparr>access := deny_children\<rparr>"
  have l: "listable demo_host ''/data'' data_names" by (rule listable_data)
  have d: "deny_children (normalize demo_host ''/data'') R_OK"
    by (simp add: deny_children_def normalize_data)
  have fits: "(1::int) = 1 \<and> int (length data_names) \<le> 10"
    by (simp add: data_names_def)
  have kept: "filter (\<lambda>n. resolvable demo_host (resolve demo_host ''/data'') n
                       \<and> (True \<or> \<not> isHiddenName demo_host n)) data_names
      = [''c.txt'', ''a.txt'', ''.hidden'', ''sub'', ''locked'', ''b.txt'']"
    using kept_data by (simp add: resolve_data)
  obtain r where r: "listDirectory ?h ''/data'' 1 10 True ByName Asc = Inr r"
    and tot: "pg_total (lr_pagination r)
        = length (filter (\<lambda>n. resolvable demo_host (resolve demo_host ''/data'') n
                       \<and> (True \<or> \<not> isHiddenName demo_host n)) data_names)"
    and whole: "(1::int) = 1 \<and> int (length data_names) \<le> 10
         \<longrightarrow> mset (map fi_name (lr_items r))
             = mset (filter (\<lambda>n. resolvable demo_host (resolve demo_host ''/data'') n
                       \<and> (True \<or> \<not> isHiddenName demo_host n)) data_names)"
    and flags: "\<forall>item \<in> set (lr_items r).
          readable (fi_permissions item) = deny_children (fi_path item) R_OK
          \<and> writable (fi_permissions item) = deny_children (fi_path item) W_OK
          \<and> executable (fi_permissions item) = deny_children (fi_path item) X_OK"
    and names: "map fi_name (collectItems ?h (resolve demo_host ''/data'') True data_names)
        = filter (\<lambda>n. resolvable demo_host (resolve demo_host ''/data'') n
                       \<and> (True \<or> \<not> isHiddenName demo_host n)) data_names"
    using C9_permission_probes [OF l, of deny_children, OF d, where page = 1 and limit = 10
        and includeHidden = True and sortBy = ByName and sortOrder = Asc]
    by auto
  have t6: "pg_total (lr_pagination r) = 6"
    unfolding tot kept by simp
  have page: "mset (map fi_name (lr_items r))
      = mset [''c.txt'', ''a.txt'', ''.hidden'', ''sub'', ''locked'', ''b.txt'']"
    using whole fits unfolding kept by blast
  have listed: "map fi_name (collectItems ?h (resolve demo_host ''/data'') True data_names)
       = [''c.txt'', ''a.txt'', ''.hidden'', ''sub'', ''locked'', ''b.txt'']"
    unfolding names kept ..
  have "size (mset (map fi_name (lr_items r))) = 6"
    unfolding page by simp
  then have six: "length (lr_items r) = 6" by simp
  have "listable ?h ''/data'' data_names"
    using l d by (rule listable_probes)
  from listDirectory_listable [OF this, of 1 10 True ByName Asc] r
  have r_eq: "r = buildResponse ?h ''/data'' 1 10 (allItems ?h ''/data'' True ByName Asc data_names)"
    by (simp add: resolve_data)
  have below: "\<forall>n \<in> set data_names. join ?h ''/data'' n \<noteq> ''/data''"
    by (simp add: data_names_def demo_host_def demo_path_defs)
  have "\<not> deny_children (fi_path item) m" if "item \<in> set (lr_items r)" for item m
  proof -
    from that obtain n where "n \<in> set data_names"
      and "listEntry ?h ''/data'' True n = Some item"
      unfolding r_eq using page_entry by blast
    with below listEntry_Some(2) [of ?h "''/data''" True n item]
    show ?thesis by (simp add: deny_children_def)
  qed
  with flags have "map (\<lambda>item. readable (fi_permissions item) \<or> writable (fi_permissions item)
                   \<or> executable (fi_permissions item)) (lr_items r)
      = map (\<lambda>item. False) (lr_items r)"
    by (intro map_cong refl) simp
  then have flagless: "map (\<lambda>item. readable (fi_permissions item)
        \<or> writable (fi_permissions item) \<or> executable (fi_permissions item)) (lr_items r)
      = replicate 6 False"
    by (simp add: map_replicate_const six)
  from l d fits r t6 page flagless listed show ?thesis by blast
qed

text \<open>
  C10, as stated, fails: on the sample host the relative path \<open>../data/a.txt\<close> resolves
  to the regular file \<open>/data/a.txt\<close>, which exists, is readable and is not on the
  deny-list, yet the probe fails with \<open>PathTraversal\<close>: the normalized path keeps the
  parent-directory segment, and Path Guard rejects it.
\<close>

theorem C10_counterexample:
  "stat demo_host (resolve demo_host ''../data/a.txt'') = Some (demo_file 5)
   \<and> st_isFile (demo_file 5) \<and> \<not> st_isDirectory (demo_file 5)
   \<and> access demo_host (normalize demo_host ''../data/a.txt'') R_OK
   \<and> \<not> isRestricted demo_host (normalize demo_host ''../data/a.txt'')
   \<and> hasTraversalSegment (normalize demo_host ''../data/a.txt'')
   \<and> getDirectoryMetadata demo_host ''../data/a.txt'' = Inl PathTraversal"
proof -
  have "getDirectoryMetadata demo_host ''../data/a.txt'' = Inl PathTraversal"
    using getDirectoryMetadata_guard_error [OF guard_relative] by simp
  with relative_facts traversal_relative show ?thesis by simp
qed

text \<open>
  C10, amended. For every path that passes Path Guard and whose \<open>stat\<close> says it is not a
  directory, the probe succeeds with \<open>exists = true\<close>, \<open>isDirectory = false\<close>,
  \<open>totalItems = 0\<close> and \<open>totalSize = 0\<close>, and its result does not depend on what
  \<open>readdir\<close> would answer: the children are not counted.
\<close>

theorem C10_probe_regular_file:
  assumes "validatePath h dirPath = Inr ()"
    and "stat h (resolve h dirPath) = Some st"
    and "\<not> st_isDirectory st"
  shows "\<exists>m. getDirectoryMetadata h dirPath = Inr m
    \<and> dm_exists m \<and> \<not> dm_isDirectory m \<and> dm_totalItems m = 0 \<and> dm_totalSize m = 0
    \<and> (\<forall>listing. getDirectoryMetadata (h\<lparr>readdir := listing\<rparr>) dirPath = Inr m)"
proof -
  define m where "m =
    \<lparr>dm_path = resolve h dirPath, dm_exists = True, dm_isDirectory = False,
     dm_permissions =
       \<lparr>pt_readable = access h (resolve h dirPath) R_OK,
        pt_writable = access h (resolve h dirPath) W_OK,
        pt_executable = access h (resolve h dirPath) X_OK\<rparr>,
     dm_totalItems = 0, dm_totalSize = 0,
     dm_lastAccessed = toISOString h (st_atime st),
     dm_lastModified = toISOString h (st_mtime st),
     dm_created = toISOString h (st_birthtime st)\<rparr>"
  have nondir: "getDirectoryMetadata h' dirPath = Inr m"
    if "validatePath h' dirPath = Inr ()" "stat h' = stat h" "resolve h' = resolve h"
      "access h' = access h" "toISOString h' = toISOString h" for h'
    using that assms(2,3)
    by (simp add: getDirectoryMetadata_def probe_def countChildren_def Let_def m_def
        getFilePermissions_flags)
  have here: "getDirectoryMetadata h dirPath = Inr m"
    by (rule nondir) (simp_all add: assms(1))
  have there: "\<forall>listing. getDirectoryMetadata (h\<lparr>readdir := listing\<rparr>) dirPath = Inr m"
  proof
    fix listing
    have "validatePath (h\<lparr>readdir := listing\<rparr>) dirPath = Inr ()"
      using assms(1) by (simp add: validatePath_Inr isRestricted_def)
    then show "getDirectoryMetadata (h\<lparr>readdir := listing\<rparr>) dirPath = Inr m"
      by (rule nondir) simp_all
  qed
  have fields: "dm_exists m" "\<not> dm_isDirectory m" "dm_totalItems m = 0" "dm_totalSize m = 0"
    by (simp_all add: m_def)
  show ?thesis
    by (intro exI [of _ m] conjI here fields there)
qed

theorem C10_probe_regular_file_witness:
  "validatePath demo_host ''/data/a.txt'' = Inr ()
   \<and> stat demo_host (resolve demo_host ''/data/a.txt'') = Some (demo_file 5)
   \<and> \<not> st_isDirectory (demo_file 5)
   \<and> (\<exists>m. getDirectoryMetadata demo_host ''/data/a.txt'' = Inr m
        \<and> dm_exists m \<and> \<not> dm_isDirectory m \<and> dm_totalItems m = 0 \<and> dm_totalSize m = 0)"
proof -
  have "\<exists>m. getDirectoryMetadata demo_host ''/data/a.txt'' = Inr m
        \<and> dm_exists m \<and> \<not> dm_isDirectory m \<and> dm_totalItems m = 0 \<and> dm_totalSize m = 0"
    using C10_probe_regular_file [OF guard_file stat_file file_facts] by blast
  with guard_file stat_file file_facts show ?thesis by blast
qed

end
